theory Spec2Isabelle
  imports Main "HOL-Library.Word" "HOL-Library.Product_Lexorder"
begin

unbundle bit_operations_syntax

section \<open>Machine types and error numbers\<close>

type_synonym u8 = "8 word"
type_synonym u32 = "32 word"
type_synonym u64 = "64 word"

text \<open>The kernel's errno values; the C code returns them negated.\<close>

definition ENOENT :: int where "ENOENT = 2"
definition EIO :: int where "EIO = 5"
definition EAGAIN :: int where "EAGAIN = 11"
definition ENOMEM :: int where "ENOMEM = 12"
definition EEXIST :: int where "EEXIST = 17"
definition EINVAL :: int where "EINVAL = 22"

definition U64_MAX :: u64 where "U64_MAX = - 1"

text \<open>\<open>le64_to_cpu\<close> of the bytes that \<open>memcpy\<close> placed in a \<open>__le64\<close>: the first byte is
  the least significant one.\<close>

fun le64_to_cpu :: "u8 list \<Rightarrow> u64" where
  "le64_to_cpu [] = 0"
| "le64_to_cpu (b # bs) = ucast b + push_bit 8 (le64_to_cpu bs)"

section \<open>Keys and btrees\<close>

text \<open>Modelled from the spec: \<open>struct scoutfs_key\<close> is declared in \<open>format.h\<close>, which is
  not among the sources. The spec keys the trans-seq tree by \<open>(seq, rid)\<close> and the
  mounted-clients tree by \<open>rid\<close>. A key is compared field by field, the most significant
  first. The key initialisers below set the leading fields (\<open>skts_trans_seq\<close> and
  \<open>skts_rid\<close>, or \<open>skmc_rid\<close> alone) and their designated initialiser zeroes the rest, which
  is kept here as one low-order byte. The order on keys is the lexicographic order of the
  triple.\<close>

type_synonym scoutfs_key = "u64 \<times> u64 \<times> u8"

text \<open>An item of the \<open>trans_seqs\<close> btree: \<open>(skts_trans_seq, skts_rid)\<close>, with no value.\<close>

type_synonym trans_seq_item = "u64 \<times> u64"

definition init_trans_seq_key :: "u64 \<Rightarrow> u64 \<Rightarrow> scoutfs_key" where
  "init_trans_seq_key seq rid = (seq, rid, 0)"

definition skts_trans_seq :: "scoutfs_key \<Rightarrow> u64" where
  "skts_trans_seq key = fst key"

definition skts_rid :: "scoutfs_key \<Rightarrow> u64" where
  "skts_rid key = fst (snd key)"

text \<open>The key a trans-seq item is stored under.\<close>

definition trans_seq_key :: "trans_seq_item \<Rightarrow> scoutfs_key" where
  "trans_seq_key it = init_trans_seq_key (fst it) (snd it)"

text \<open>Modelled from the spec: \<open>scoutfs_key_inc\<close> (\<open>key.h\<close>, not among the sources) steps a
  cursor to the next key in key order: it increments the lowest field and carries
  upwards.\<close>

definition scoutfs_key_inc :: "scoutfs_key \<Rightarrow> scoutfs_key" where
  "scoutfs_key_inc key =
     (case key of (first, second, low) \<Rightarrow>
        if low + 1 \<noteq> 0 then (first, second, low + 1)
        else if second + 1 \<noteq> 0 then (first, second + 1, 0)
        else (first + 1, 0, 0))"

text \<open>Modelled from the spec: the btree (\<open>btree.c\<close>, not among the sources) is a persistent
  ordered key/value map with cursor iteration. A tree is the list of its items, and
  \<open>key_of\<close> gives the key an item is stored under. A btree call reads and writes blocks and
  can fail: every call first takes the head of the schedule \<open>faults\<close>, where an entry
  \<open>n > 0\<close> makes the call fail with \<open>-n\<close> and an entry 0 or an empty schedule lets it
  run.\<close>

definition btree_io :: "nat list \<Rightarrow> int \<times> nat list" where
  "btree_io faults = (case faults of [] \<Rightarrow> (0, []) | f # fs \<Rightarrow> (- int f, fs))"

text \<open>Modelled from the spec: \<open>scoutfs_btree_next\<close> finds the item with the least key at or
  after \<open>key\<close>, or returns \<open>-ENOENT\<close>.\<close>

definition scoutfs_btree_next ::
  "('i \<Rightarrow> scoutfs_key) \<Rightarrow> 'i list \<Rightarrow> nat list \<Rightarrow> scoutfs_key \<Rightarrow> (int + 'i) \<times> nat list" where
  "scoutfs_btree_next key_of tree faults key =
     (case btree_io faults of (err, fs) \<Rightarrow>
        if err < 0 then (Inl err, fs)
        else (case filter (\<lambda>it. key \<le> key_of it) tree of
                [] \<Rightarrow> (Inl (- ENOENT), fs)
              | it # its \<Rightarrow>
                  (Inr (fold (\<lambda>a b. if key_of a < key_of b then a else b) its it), fs)))"

text \<open>Modelled from the spec: \<open>scoutfs_btree_lookup\<close> finds the item stored under \<open>key\<close>, or
  returns \<open>-ENOENT\<close>.\<close>

definition scoutfs_btree_lookup ::
  "('i \<Rightarrow> scoutfs_key) \<Rightarrow> 'i list \<Rightarrow> nat list \<Rightarrow> scoutfs_key \<Rightarrow> (int + 'i) \<times> nat list" where
  "scoutfs_btree_lookup key_of tree faults key =
     (case btree_io faults of (err, fs) \<Rightarrow>
        if err < 0 then (Inl err, fs)
        else (case find (\<lambda>it. key_of it = key) tree of
                None \<Rightarrow> (Inl (- ENOENT), fs)
              | Some it \<Rightarrow> (Inr it, fs)))"

text \<open>Modelled from the spec: \<open>scoutfs_btree_delete\<close> removes the item stored under \<open>key\<close>,
  or returns \<open>-ENOENT\<close>.\<close>

definition scoutfs_btree_delete ::
  "('i \<Rightarrow> scoutfs_key) \<Rightarrow> 'i list \<Rightarrow> nat list \<Rightarrow> scoutfs_key \<Rightarrow> int \<times> 'i list \<times> nat list" where
  "scoutfs_btree_delete key_of tree faults key =
     (case btree_io faults of (err, fs) \<Rightarrow>
        if err < 0 then (err, tree, fs)
        else if key \<in> key_of ` set tree
        then (0, filter (\<lambda>it. key_of it \<noteq> key) tree, fs)
        else (- ENOENT, tree, fs))"

text \<open>Modelled from the spec: \<open>scoutfs_btree_insert\<close> adds an item in key order, or returns
  \<open>-EEXIST\<close> when its key is taken.\<close>

definition scoutfs_btree_insert ::
  "('i \<Rightarrow> scoutfs_key) \<Rightarrow> 'i list \<Rightarrow> nat list \<Rightarrow> 'i \<Rightarrow> int \<times> 'i list \<times> nat list" where
  "scoutfs_btree_insert key_of tree faults it =
     (case btree_io faults of (err, fs) \<Rightarrow>
        if err < 0 then (err, tree, fs)
        else if key_of it \<in> key_of ` set tree then (- EEXIST, tree, fs)
        else (0, insort_key key_of it tree, fs))"

section \<open>Server: requests, responses and the shared commit\<close>

text \<open>What \<open>scoutfs_net_response\<close> is handed: the command and id of the request, the error
  and the payload.\<close>

record 'p net_response =
  resp_cmd :: u8
  resp_id :: u64
  resp_error :: int
  resp_data :: 'p

text \<open>The persistent fields of the super block that the request handlers below touch,
  and the schedule of failures of the btree calls they make.\<close>

record server_state =
  next_ino :: u64
  next_trans_seq :: u64
  trans_seqs :: "trans_seq_item list"
  btree_faults :: "nat list"

text \<open>\<open>scoutfs_server_hold_commit\<close> takes the commit rwsem for reading and returns 0.\<close>

definition scoutfs_server_hold_commit :: int where
  "scoutfs_server_hold_commit = 0"

text \<open>\<open>scoutfs_server_apply_commit\<close>: with \<open>err = 0\<close> the caller queues a waiter and returns
  the \<open>ret\<close> that the commit worker stored in it (\<open>commit_ret\<close>); otherwise it returns \<open>err\<close>
  without waiting.\<close>

definition scoutfs_server_apply_commit :: "int \<Rightarrow> int \<Rightarrow> int" where
  "scoutfs_server_apply_commit err commit_ret = (if err = 0 then commit_ret else err)"

subsection \<open>ALLOC_INODES\<close>

record scoutfs_net_inode_alloc =
  ial_ino :: u64
  ial_nr :: u64

definition server_alloc_inodes ::
  "server_state \<Rightarrow> u8 \<Rightarrow> u64 \<Rightarrow> u8 list \<Rightarrow> int
     \<Rightarrow> server_state \<times> scoutfs_net_inode_alloc net_response" where
  "server_alloc_inodes st cmd req_id arg commit_ret =
     (let ial0 = \<lparr>ial_ino = 0, ial_nr = 0\<rparr> in
      if length arg \<noteq> 8 then
        (st, \<lparr>resp_cmd = cmd, resp_id = req_id, resp_error = - EINVAL, resp_data = ial0\<rparr>)
      else
        let ret = scoutfs_server_hold_commit in
        if ret \<noteq> 0 then
          (st, \<lparr>resp_cmd = cmd, resp_id = req_id, resp_error = ret, resp_data = ial0\<rparr>)
        else
          let ino = next_ino st;
              nr = min (le64_to_cpu arg) (U64_MAX - ino);
              st' = st\<lparr>next_ino := next_ino st + nr\<rparr>;
              ret = scoutfs_server_apply_commit ret commit_ret;
              ial = (if ret = 0 then \<lparr>ial_ino = ino, ial_nr = nr\<rparr> else ial0)
          in (st', \<lparr>resp_cmd = cmd, resp_id = req_id, resp_error = ret, resp_data = ial\<rparr>))"

subsection \<open>The commit worker\<close>

text \<open>A waiter queued by \<open>scoutfs_server_apply_commit\<close>: its \<open>ret\<close> and whether its
  completion has fired.\<close>

record commit_waiter =
  cw_ret :: int
  cw_completed :: bool

text \<open>What the calls made by one run of the commit worker return: \<open>scoutfs_forcing_unmount\<close>,
  \<open>scoutfs_alloc_fill_list\<close>, \<open>scoutfs_alloc_empty_list\<close>, \<open>scoutfs_alloc_prepare_commit\<close>,
  \<open>scoutfs_block_writer_write\<close> and \<open>scoutfs_write_super\<close>. None of them is among the
  sources, so a run is given their results.\<close>

record commit_steps =
  forcing_unmount :: bool
  fill_list_ret :: int
  empty_list_ret :: int
  prepare_commit_ret :: int
  block_writer_write_ret :: int
  write_super_ret :: int

text \<open>The server fields kept here: the waiter list, the index of the idle allocator bank,
  the stable roots \<open>(fs, logs, srch)\<close> and the roots in the super block they are published
  from. The allocator list heads that a successful run copies between the server and the
  super block are left out: they hold what the allocator calls produced.\<close>

record commit_server =
  commit_waiters :: "commit_waiter list"
  other_ind :: nat
  roots :: "u64 \<times> u64 \<times> u64"
  super_roots :: "u64 \<times> u64 \<times> u64"

text \<open>The body of \<open>scoutfs_server_commit_func\<close> up to the label \<open>out\<close>: each failing
  call jumps there with its error; only a run that wrote the super block publishes the
  roots and flips the bank index.\<close>

definition commit_body :: "commit_steps \<Rightarrow> commit_server \<Rightarrow> int \<times> commit_server" where
  "commit_body steps server =
     (if forcing_unmount steps then (- EIO, server)
      else if fill_list_ret steps \<noteq> 0 then (fill_list_ret steps, server)
      else if empty_list_ret steps \<noteq> 0 then (empty_list_ret steps, server)
      else if prepare_commit_ret steps < 0 then (prepare_commit_ret steps, server)
      else if block_writer_write_ret steps \<noteq> 0 then (block_writer_write_ret steps, server)
      else if write_super_ret steps \<noteq> 0 then (write_super_ret steps, server)
      else (0, server\<lparr>roots := super_roots server,
                       other_ind := (if other_ind server = 0 then 1 else 0)\<rparr>))"

text \<open>From \<open>out\<close>: \<open>llist_del_all\<close> empties the waiter list, every waiter taken from it
  gets \<open>ret\<close> and is completed. The result is the \<open>ret\<close> of the run, the server, and the
  waiters that were completed.\<close>

definition scoutfs_server_commit_func ::
  "commit_steps \<Rightarrow> commit_server \<Rightarrow> int \<times> commit_server \<times> commit_waiter list" where
  "scoutfs_server_commit_func steps server =
     (case commit_body steps server of
        (ret, server') \<Rightarrow>
          (ret, server'\<lparr>commit_waiters := []\<rparr>,
           map (\<lambda>cw. cw\<lparr>cw_ret := ret, cw_completed := True\<rparr>) (commit_waiters server')))"

text \<open>The outcome of a commit in the spec's words: 0 when every step succeeds, otherwise
  the error of the first step that fails. The steps in order, each as its error or 0.\<close>

definition commit_step_errors :: "commit_steps \<Rightarrow> int list" where
  "commit_step_errors steps =
     [if forcing_unmount steps then - EIO else 0,
      fill_list_ret steps,
      empty_list_ret steps,
      if prepare_commit_ret steps < 0 then prepare_commit_ret steps else 0,
      block_writer_write_ret steps,
      write_super_ret steps]"

definition first_failing_step :: "int list \<Rightarrow> int" where
  "first_failing_step errs = (case find (\<lambda>e. e \<noteq> 0) errs of None \<Rightarrow> 0 | Some e \<Rightarrow> e)"

subsection \<open>GET_ROOTS\<close>

record scoutfs_net_roots =
  fs_root :: u64
  logs_root :: u64
  srch_root :: u64

text \<open>\<open>server_get_roots\<close>; \<open>stable_roots\<close> is what \<open>get_roots\<close> reads from the server. The
  response is built with the literal 0 in the error position, as in the source.\<close>

definition server_get_roots ::
  "scoutfs_net_roots \<Rightarrow> u8 \<Rightarrow> u64 \<Rightarrow> u8 list \<Rightarrow> scoutfs_net_roots net_response" where
  "server_get_roots stable_roots cmd req_id arg =
     (let (roots, ret) =
            (if length arg \<noteq> 0
             then (\<lparr>fs_root = 0, logs_root = 0, srch_root = 0\<rparr>, - EINVAL)
             else (stable_roots, 0))
      in \<lparr>resp_cmd = cmd, resp_id = req_id, resp_error = 0, resp_data = roots\<rparr>)"

subsection \<open>Trans-seq items\<close>

text \<open>The \<open>for (;;)\<close> loop of \<open>remove_trans_seq_locked\<close>: find the next item at or after
  the cursor, delete it when its rid is the caller's, step the cursor past it. The lemmas
  before it give the measure of its termination proof: the number of items at or after
  the cursor.\<close>

lemma fold_least_in:
  "fold (\<lambda>a b. if f a < f b then a else b) its (it :: 'i) \<in> set (it # its)"
  by (induction its arbitrary: it) auto

lemma fold_least_le_all:
  "\<forall>x \<in> set (it # its).
     (f :: 'i \<Rightarrow> 'k :: linorder) (fold (\<lambda>a b. if f a < f b then a else b) its it) \<le> f x"
proof (induction its arbitrary: it)
  case Nil
  show ?case by simp
next
  case (Cons a its)
  let ?g = "\<lambda>a b. if f a < f b then a else b"
  let ?m = "?g a it"
  have ih: "\<forall>x \<in> set (?m # its). f (fold ?g its ?m) \<le> f x" by (rule Cons.IH)
  then have "f (fold ?g its ?m) \<le> f ?m" by simp
  moreover have "f ?m \<le> f it" "f ?m \<le> f a" by auto
  ultimately have "f (fold ?g its ?m) \<le> f it" "f (fold ?g its ?m) \<le> f a"
    by (blast intro: order.trans)+
  with ih show ?case by simp
qed

lemma fold_least_le:
  "x \<in> set (it # its) \<Longrightarrow>
     (f :: 'i \<Rightarrow> 'k :: linorder) (fold (\<lambda>a b. if f a < f b then a else b) its it) \<le> f x"
  using fold_least_le_all [of it its f] by blast

lemma btree_next_found:
  assumes "scoutfs_btree_next key_of tree faults key = (Inr found, fs)"
  shows "found \<in> set tree \<and> key \<le> key_of found
    \<and> (\<forall>j \<in> set tree. key \<le> key_of j \<longrightarrow> key_of found \<le> key_of j)"
proof -
  let ?f = "\<lambda>a b. if key_of a < key_of b then a else b"
  obtain it its where f: "filter (\<lambda>it. key \<le> key_of it) tree = it # its"
    and k: "found = fold ?f its it"
    using assms
    by (auto simp: scoutfs_btree_next_def split: prod.splits if_splits list.splits)
  have "found \<in> set (it # its)" unfolding k by (rule fold_least_in)
  then have "found \<in> set (filter (\<lambda>it. key \<le> key_of it) tree)" by (simp only: f)
  moreover have "key_of found \<le> key_of j" if "j \<in> set tree" "key \<le> key_of j" for j
  proof -
    have "j \<in> set (filter (\<lambda>it. key \<le> key_of it) tree)" using that by simp
    then have "j \<in> set (it # its)" by (simp only: f)
    then show ?thesis unfolding k by (rule fold_least_le)
  qed
  ultimately show ?thesis by auto
qed

lemma btree_next_none:
  assumes "scoutfs_btree_next key_of tree [] key = (Inl err, fs)"
  shows "err = - ENOENT \<and> fs = [] \<and> (\<forall>j \<in> set tree. \<not> key \<le> key_of j)"
  using assms
  by (auto simp: scoutfs_btree_next_def btree_io_def filter_empty_conv split: list.splits)

lemma btree_next_no_fault:
  "scoutfs_btree_next key_of tree [] key = (r, fs) \<Longrightarrow> fs = []"
  by (auto simp: scoutfs_btree_next_def btree_io_def split: list.splits)

lemma key_inc_trans_seq_key:
  "scoutfs_key_inc (trans_seq_key it) = (fst it, snd it, 1)"
  by (simp add: scoutfs_key_inc_def trans_seq_key_def init_trans_seq_key_def)

lemma trans_seq_key_less_inc: "trans_seq_key it < scoutfs_key_inc (trans_seq_key it)"
  by (simp add: key_inc_trans_seq_key)
    (simp add: trans_seq_key_def init_trans_seq_key_def less_prod_def)

lemma trans_seq_key_inc_le:
  "trans_seq_key a < trans_seq_key b \<Longrightarrow> scoutfs_key_inc (trans_seq_key a) \<le> trans_seq_key b"
  by (simp add: key_inc_trans_seq_key)
    (auto simp add: trans_seq_key_def init_trans_seq_key_def less_prod_def less_eq_prod_def)

lemma cursor_measure:
  assumes nx: "scoutfs_btree_next key_of tree faults key = (Inr found, fs)"
    and lt: "key_of found < key'"
    and sub: "\<exists>P. tree' = filter P tree"
  shows "length (filter (\<lambda>it. key' \<le> key_of it) tree')
       < length (filter (\<lambda>it. key \<le> key_of it) tree)"
proof -
  from btree_next_found [OF nx] have it: "found \<in> set tree"
    and le: "key \<le> key_of found" by auto
  let ?Q = "\<lambda>i. key' \<le> key_of i"
  let ?P = "\<lambda>i. key \<le> key_of i"
  from sub obtain R where t': "tree' = filter R tree" by blast
  have imp: "?Q i \<Longrightarrow> ?P i" for i using le lt by (meson order.trans less_imp_le)
  have "filter ?Q tree' = filter R (filter ?Q tree)"
    unfolding t' by (simp add: filter_filter conj_commute)
  then have "length (filter ?Q tree') \<le> length (filter ?Q tree)"
    by (simp only: length_filter_le)
  also have "filter ?Q tree = filter ?Q (filter ?P tree)"
    using imp by (auto simp: filter_filter intro: filter_cong)
  also have "length \<dots> < length (filter ?P tree)"
  proof (rule length_filter_less)
    show "found \<in> set (filter ?P tree)" using it le by simp
    show "\<not> ?Q found" using lt by (simp add: not_le)
  qed
  finally show ?thesis .
qed

lemma btree_delete_filter:
  assumes d: "scoutfs_btree_delete key_of tree faults key = (ret, tree', fs')"
  shows "\<exists>P. tree' = filter P tree"
proof -
  have same: "tree = filter (\<lambda>_. True) tree" by simp
  from d have "tree' = tree \<or> tree' = filter (\<lambda>it. key_of it \<noteq> key) tree"
    by (auto simp: scoutfs_btree_delete_def split: prod.splits if_splits)
  then show ?thesis using same by metis
qed

function remove_trans_seq_loop ::
  "u64 \<Rightarrow> trans_seq_item list \<Rightarrow> nat list \<Rightarrow> scoutfs_key
     \<Rightarrow> int \<times> trans_seq_item list \<times> nat list" where
  "remove_trans_seq_loop rid tree faults key =
     (case scoutfs_btree_next trans_seq_key tree faults key of
        (Inl err, fs) \<Rightarrow> (if err = - ENOENT then 0 else err, tree, fs)
      | (Inr found, fs) \<Rightarrow>
          let key = trans_seq_key found in
          if skts_rid key = rid then
            (case scoutfs_btree_delete trans_seq_key tree fs key of
               (ret, tree', fs') \<Rightarrow>
                 if ret < 0 then (ret, tree', fs')
                 else remove_trans_seq_loop rid tree' fs' (scoutfs_key_inc key))
          else remove_trans_seq_loop rid tree fs (scoutfs_key_inc key))"
  by pat_completeness auto
termination
proof (relation "measure (\<lambda>(rid, tree, faults, key).
    length (filter (\<lambda>it. key \<le> trans_seq_key it) tree))", goal_cases)
  case 1
  show ?case by simp
next
  case (2 rid tree faults key x1 fs found k x1a x2 tree' fs')
  have nx: "scoutfs_btree_next trans_seq_key tree faults key = (Inr found, fs)"
    using 2 by simp
  have "scoutfs_btree_delete trans_seq_key tree fs k = (x1a, tree', fs')" using 2 by simp
  then have "\<exists>P. tree' = filter P tree" by (rule btree_delete_filter)
  from cursor_measure [OF nx trans_seq_key_less_inc this] show ?case using 2 by simp
next
  case (3 rid tree faults key x1 fs found k)
  have nx: "scoutfs_btree_next trans_seq_key tree faults key = (Inr found, fs)"
    using 3 by simp
  have "\<exists>P. tree = filter P tree" by (rule exI [of _ "\<lambda>_. True"]) simp
  from cursor_measure [OF nx trans_seq_key_less_inc this] show ?case using 3 by simp
qed

declare remove_trans_seq_loop.simps [simp del]

definition remove_trans_seq_locked :: "u64 \<Rightarrow> server_state \<Rightarrow> int \<times> server_state" where
  "remove_trans_seq_locked rid st =
     (case remove_trans_seq_loop rid (trans_seqs st) (btree_faults st) (init_trans_seq_key 0 0) of
        (ret, tree, fs) \<Rightarrow> (ret, st\<lparr>trans_seqs := tree, btree_faults := fs\<rparr>))"

text \<open>\<open>remove_trans_seq\<close> is the same call under the write side of \<open>seq_rwsem\<close>; it is
  what farewell and reclaim processing use.\<close>

definition remove_trans_seq :: "u64 \<Rightarrow> server_state \<Rightarrow> int \<times> server_state" where
  "remove_trans_seq rid st = remove_trans_seq_locked rid st"

text \<open>\<open>server_advance_seq\<close>; \<open>rid\<close> is \<open>scoutfs_net_client_rid(conn)\<close>.\<close>

definition server_advance_seq ::
  "server_state \<Rightarrow> u64 \<Rightarrow> u8 \<Rightarrow> u64 \<Rightarrow> u8 list \<Rightarrow> int
     \<Rightarrow> server_state \<times> u64 net_response" where
  "server_advance_seq st rid cmd req_id arg commit_ret =
     (if length arg \<noteq> 0 then
        (st, \<lparr>resp_cmd = cmd, resp_id = req_id, resp_error = - EINVAL, resp_data = 0\<rparr>)
      else
        let ret = scoutfs_server_hold_commit in
        if ret \<noteq> 0 then
          (st, \<lparr>resp_cmd = cmd, resp_id = req_id, resp_error = ret, resp_data = 0\<rparr>)
        else
          (case remove_trans_seq_locked rid st of
             (ret, st1) \<Rightarrow>
               if ret < 0 then
                 (st1, \<lparr>resp_cmd = cmd, resp_id = req_id,
                        resp_error = scoutfs_server_apply_commit ret commit_ret, resp_data = 0\<rparr>)
               else
                 let seq = next_trans_seq st1;
                     st2 = st1\<lparr>next_trans_seq := next_trans_seq st1 + 1\<rparr>
                 in (case scoutfs_btree_insert trans_seq_key (trans_seqs st2) (btree_faults st2)
                            (seq, rid) of
                       (ret, tree, fs) \<Rightarrow>
                         let leseq = (if ret = 0 then seq else 0);
                             ret = scoutfs_server_apply_commit ret commit_ret
                         in (st2\<lparr>trans_seqs := tree, btree_faults := fs\<rparr>,
                             \<lparr>resp_cmd = cmd, resp_id = req_id, resp_error = ret,
                              resp_data = leseq\<rparr>))))"

text \<open>\<open>server_get_last_seq\<close>: the seq of the first item, or \<open>next_trans_seq\<close> when the tree
  is empty, plus \<open>-1ULL\<close>. On another error \<open>last_seq\<close> is still its initial 0 when the
  addition runs.\<close>

definition server_get_last_seq ::
  "server_state \<Rightarrow> u64 \<Rightarrow> u8 \<Rightarrow> u64 \<Rightarrow> u8 list \<Rightarrow> server_state \<times> u64 net_response" where
  "server_get_last_seq st rid cmd req_id arg =
     (if length arg \<noteq> 0 then
        (st, \<lparr>resp_cmd = cmd, resp_id = req_id, resp_error = - EINVAL, resp_data = 0\<rparr>)
      else
        (case scoutfs_btree_next trans_seq_key (trans_seqs st) (btree_faults st)
                (init_trans_seq_key 0 0) of
           (found, fs) \<Rightarrow>
             let (last_seq, ret) =
                   (case found of
                      Inr item \<Rightarrow> (skts_trans_seq (trans_seq_key item), 0)
                    | Inl err \<Rightarrow> if err = - ENOENT then (next_trans_seq st, 0) else (0, err));
                 last_seq = last_seq + (- 1)
             in (st\<lparr>btree_faults := fs\<rparr>,
                 \<lparr>resp_cmd = cmd, resp_id = req_id, resp_error = ret, resp_data = last_seq\<rparr>)))"

subsection \<open>Farewell\<close>

text \<open>An item of the \<open>mounted_clients\<close> btree: the rid of its key (\<open>skmc_rid\<close>, the leading
  key field), the length of its value and the \<open>flags\<close> of the value.\<close>

record mounted_client_item =
  mci_rid :: u64
  mci_val_len :: u32
  mci_flags :: u8

text \<open>Modelled from the spec: \<open>format.h\<close> is not among the sources. The mounted-client
  value is \<open>{flags}\<close>, one byte, and \<open>QUORUM\<close> is one bit of it.\<close>

definition SCOUTFS_MOUNTED_CLIENT_QUORUM :: u8 where
  "SCOUTFS_MOUNTED_CLIENT_QUORUM = 1"

definition sizeof_mounted_client_btree_val :: u32 where
  "sizeof_mounted_client_btree_val = 1"

definition init_mounted_client_key :: "u64 \<Rightarrow> scoutfs_key" where
  "init_mounted_client_key rid = (rid, 0, 0)"

definition mounted_client_key :: "mounted_client_item \<Rightarrow> scoutfs_key" where
  "mounted_client_key it = init_mounted_client_key (mci_rid it)"

definition invalid_mounted_client_item :: "mounted_client_item \<Rightarrow> bool" where
  "invalid_mounted_client_item it \<longleftrightarrow> mci_val_len it \<noteq> sizeof_mounted_client_btree_val"

record farewell_request =
  fw_net_id :: u64
  fw_rid :: u64

lemma key_inc_mounted_client_key:
  "scoutfs_key_inc (mounted_client_key it) = (mci_rid it, 0, 1)"
  by (simp add: scoutfs_key_inc_def mounted_client_key_def init_mounted_client_key_def)

lemma mounted_client_key_less_inc:
  "mounted_client_key it < scoutfs_key_inc (mounted_client_key it)"
  by (simp add: key_inc_mounted_client_key)
    (simp add: mounted_client_key_def init_mounted_client_key_def less_prod_def)

text \<open>The first loop of \<open>farewell_worker\<close>: count the mounted clients with and without
  the quorum flag. \<open>Inl\<close> is a \<open>goto out\<close> with that error, \<open>Inr\<close> the counts at the
  \<open>break\<close>. The counters are \<open>unsigned int\<close>.\<close>

function count_mounted_clients ::
  "mounted_client_item list \<Rightarrow> nat list \<Rightarrow> scoutfs_key \<Rightarrow> u32 \<Rightarrow> u32
     \<Rightarrow> (int + u32 \<times> u32) \<times> nat list" where
  "count_mounted_clients tree faults key quo_mnts non_mnts =
     (case scoutfs_btree_next mounted_client_key tree faults key of
        (Inl err, fs) \<Rightarrow>
          (if err = - ENOENT then Inr (quo_mnts, non_mnts) else Inl err, fs)
      | (Inr item, fs) \<Rightarrow>
          if invalid_mounted_client_item item then (Inl (- EIO), fs)
          else
            let key = mounted_client_key item in
            if mci_flags item AND SCOUTFS_MOUNTED_CLIENT_QUORUM \<noteq> 0
            then count_mounted_clients tree fs (scoutfs_key_inc key) (quo_mnts + 1) non_mnts
            else count_mounted_clients tree fs (scoutfs_key_inc key) quo_mnts (non_mnts + 1))"
  by pat_completeness auto
termination
proof (relation "measure (\<lambda>(tree, faults, key, quo_mnts, non_mnts).
    length (filter (\<lambda>it. key \<le> mounted_client_key it) tree))", goal_cases)
  case 1
  show ?case by simp
next
  case (2 tree faults key quo_mnts non_mnts x1 fs item k)
  have nx: "scoutfs_btree_next mounted_client_key tree faults key = (Inr item, fs)"
    using 2 by simp
  have "\<exists>P. tree = filter P tree" by (rule exI [of _ "\<lambda>_. True"]) simp
  from cursor_measure [OF nx mounted_client_key_less_inc this] show ?case using 2 by simp
next
  case (3 tree faults key quo_mnts non_mnts x1 fs item k)
  have nx: "scoutfs_btree_next mounted_client_key tree faults key = (Inr item, fs)"
    using 3 by simp
  have "\<exists>P. tree = filter P tree" by (rule exI [of _ "\<lambda>_. True"]) simp
  from cursor_measure [OF nx mounted_client_key_less_inc this] show ?case using 3 by simp
qed

declare count_mounted_clients.simps [simp del]

text \<open>The second loop: look up the mounted-client item of each request. A request
  without an item, or from a client without the quorum flag, moves to the head of
  \<open>send\<close>; a quorum request stays in \<open>reqs\<close> and is counted. \<open>kept\<close> are the requests
  already walked that stay. On a \<open>goto out\<close> the lists are as they were at that point.\<close>

fun walk_requests ::
  "mounted_client_item list \<Rightarrow> farewell_request list \<Rightarrow> nat list \<Rightarrow> farewell_request list
     \<Rightarrow> farewell_request list \<Rightarrow> u32 \<Rightarrow> u32
     \<Rightarrow> int \<times> nat list \<times> farewell_request list \<times> farewell_request list \<times> u32 \<times> u32" where
  "walk_requests tree [] faults kept send quo_reqs non_mnts =
     (0, faults, kept, send, quo_reqs, non_mnts)"
| "walk_requests tree (fw # rest) faults kept send quo_reqs non_mnts =
     (case scoutfs_btree_lookup mounted_client_key tree faults
             (init_mounted_client_key (fw_rid fw)) of
        (found, fs) \<Rightarrow>
          (case (case found of
                   Inr item \<Rightarrow> if invalid_mounted_client_item item then Inl (- EIO) else Inr item
                 | Inl err \<Rightarrow> Inl err) of
             Inl err \<Rightarrow>
               if err = - ENOENT
               then walk_requests tree rest fs kept (fw # send) quo_reqs non_mnts
               else (err, fs, kept @ fw # rest, send, quo_reqs, non_mnts)
           | Inr item \<Rightarrow>
               if mci_flags item AND SCOUTFS_MOUNTED_CLIENT_QUORUM \<noteq> 0
               then walk_requests tree rest fs (kept @ [fw]) send (quo_reqs + 1) non_mnts
               else walk_requests tree rest fs kept (fw # send) quo_reqs (non_mnts - 1)))"

text \<open>The third loop, over the quorum requests that remain: a request moves to the tail
  of \<open>send\<close> while enough quorum mounts remain for a majority, or when the requests are
  all that remain of the mounts. \<open>votes_needed\<close> is \<open>scoutfs_quorum_votes_needed(sb)\<close>
  (\<open>quorum.c\<close> is not among the sources), compared as \<open>unsigned int\<close>.\<close>

fun send_quorum ::
  "u32 \<Rightarrow> farewell_request list \<Rightarrow> farewell_request list \<Rightarrow> farewell_request list
     \<Rightarrow> u32 \<Rightarrow> u32 \<Rightarrow> u32
     \<Rightarrow> farewell_request list \<times> farewell_request list \<times> u32 \<times> u32" where
  "send_quorum votes_needed [] kept send quo_mnts quo_reqs non_mnts =
     (kept, send, quo_mnts, quo_reqs)"
| "send_quorum votes_needed (fw # rest) kept send quo_mnts quo_reqs non_mnts =
     (if quo_mnts > votes_needed \<or> (quo_reqs = quo_mnts \<and> non_mnts = 0)
      then send_quorum votes_needed rest kept (send @ [fw]) (quo_mnts - 1) (quo_reqs - 1) non_mnts
      else send_quorum votes_needed rest (kept @ [fw]) send quo_mnts quo_reqs non_mnts)"

text \<open>The three loops in sequence, from the spliced request list to the lists \<open>reqs\<close> and
  \<open>send\<close> that the reclaim and response loops then work on.\<close>

definition farewell_sort ::
  "mounted_client_item list \<Rightarrow> nat list \<Rightarrow> u32 \<Rightarrow> farewell_request list
     \<Rightarrow> int \<times> nat list \<times> farewell_request list \<times> farewell_request list" where
  "farewell_sort tree faults votes_needed reqs =
     (case count_mounted_clients tree faults (init_mounted_client_key 0) 0 0 of
        (Inl err, fs) \<Rightarrow> (err, fs, reqs, [])
      | (Inr (quo_mnts, non_mnts), fs) \<Rightarrow>
          (case walk_requests tree reqs fs [] [] 0 non_mnts of
             (ret, fs', reqs', send, quo_reqs, non_mnts') \<Rightarrow>
               if ret < 0 then (ret, fs', reqs', send)
               else
                 (case send_quorum votes_needed reqs' [] send quo_mnts quo_reqs non_mnts' of
                    (reqs'', send', quo_mnts', quo_reqs') \<Rightarrow> (0, fs', reqs'', send'))))"

text \<open>\<open>farewell_worker\<close>. \<open>reclaim_ret\<close> and \<open>response_ret\<close> are what \<open>reclaim_rid\<close> and
  \<open>scoutfs_net_response_node\<close> return for the request of a rid, \<open>arrived\<close> the requests
  queued while the worker ran. What \<open>reclaim_rid\<close> does to the trees is not followed
  here. The result is \<open>ret\<close>, the btree fault schedule, the new \<open>farewell_requests\<close> list,
  and the requests that were answered.\<close>

fun reclaim_all :: "(u64 \<Rightarrow> int) \<Rightarrow> farewell_request list \<Rightarrow> int" where
  "reclaim_all reclaim_ret [] = 0"
| "reclaim_all reclaim_ret (fw # send) =
     (if reclaim_ret (fw_rid fw) \<noteq> 0 then reclaim_ret (fw_rid fw)
      else reclaim_all reclaim_ret send)"

fun respond_all ::
  "(u64 \<Rightarrow> int) \<Rightarrow> farewell_request list \<Rightarrow> farewell_request list \<times> farewell_request list" where
  "respond_all response_ret [] = ([], [])"
| "respond_all response_ret (fw # send) =
     (if response_ret (fw_rid fw) \<noteq> 0 then ([], fw # send)
      else (case respond_all response_ret send of
              (answered, left) \<Rightarrow> (fw # answered, left)))"

definition farewell_worker ::
  "mounted_client_item list \<Rightarrow> nat list \<Rightarrow> u32 \<Rightarrow> (u64 \<Rightarrow> int) \<Rightarrow> (u64 \<Rightarrow> int)
     \<Rightarrow> farewell_request list \<Rightarrow> farewell_request list
     \<Rightarrow> int \<times> nat list \<times> farewell_request list \<times> farewell_request list" where
  "farewell_worker tree faults votes_needed reclaim_ret response_ret farewell_requests arrived =
     (case farewell_sort tree faults votes_needed farewell_requests of
        (ret, fs, reqs, send) \<Rightarrow>
          if ret < 0 then (ret, fs, send @ reqs @ arrived, [])
          else
            let ret = reclaim_all reclaim_ret send in
            if ret \<noteq> 0 then (ret, fs, send @ reqs @ arrived, [])
            else
              (case respond_all response_ret send of
                 (answered, left) \<Rightarrow> (0, fs, left @ reqs @ arrived, answered)))"





section \<open>Block layer\<close>

text \<open>A metadata block: the header \<open>{crc, fsid, blkno, seq}\<close> and the bytes after it.\<close>

record scoutfs_block_header =
  hdr_crc :: u32
  hdr_fsid :: u64
  hdr_blkno :: u64
  hdr_seq :: u64

record block_data =
  bl_hdr :: scoutfs_block_header
  bl_rest :: "u8 list"

text \<open>The state bits of a buffer head that the block layer reads and writes, with the
  block it holds. \<open>b_private\<close> says that a \<open>block_bh_private\<close> is attached, which is the
  case exactly while the buffer is in the dirty tree.\<close>

record buffer_head =
  b_data :: block_data
  b_uptodate :: bool
  b_verified :: bool
  b_private :: bool

record scoutfs_block_ref =
  ref_blkno :: u64
  ref_seq :: u64

text \<open>The fields of \<open>scoutfs_sb_info\<close> used here. \<open>bufs\<close> is the buffer cache of the block
  device, one buffer head per block number (\<open>b_blocknr\<close> is the index); a block that was
  never read or dirtied has a buffer that is not uptodate, with unspecified contents.
  \<open>block_dirty_tree\<close> lists the block numbers of the dirty rbtree in key order.
  \<open>buddy_freed\<close> is the freed pool of the allocator: the \<open>(seq, blkno)\<close> pairs handed
  to \<open>scoutfs_buddy_free\<close> so far, in call order.\<close>

record scoutfs_sb_info =
  super_hdr :: scoutfs_block_header
  bufs :: "u64 \<Rightarrow> buffer_head"
  block_dirty_tree :: "u64 list"
  block_writes :: int
  block_write_err :: int
  buddy_freed :: "(u64 \<times> u64) list"

text \<open>\<open>verify_block_header\<close>; \<open>crcf\<close> is \<open>scoutfs_crc_block\<close> (\<open>crc.h\<close> is not among the
  sources), \<open>b_blocknr\<close> the address the buffer was read from.\<close>

definition verify_block_header ::
  "(block_data \<Rightarrow> u32) \<Rightarrow> scoutfs_block_header \<Rightarrow> u64 \<Rightarrow> buffer_head \<Rightarrow> int" where
  "verify_block_header crcf super b_blocknr bh =
     (let hdr = bl_hdr (b_data bh); crc = crcf (b_data bh) in
      if hdr_crc hdr \<noteq> crc then - EIO
      else if hdr_fsid super \<noteq> 0 \<and> hdr_fsid hdr \<noteq> hdr_fsid super then - EIO
      else if hdr_blkno hdr \<noteq> b_blocknr then - EIO
      else 0)"

text \<open>The kernel's \<open>sb_bread\<close>: an uptodate buffer is returned as it is; otherwise the
  block is read from the device, where \<open>disk blkno = None\<close> is a failed read, for which
  \<open>sb_bread\<close> returns \<open>NULL\<close>.\<close>

definition sb_bread ::
  "(u64 \<Rightarrow> block_data option) \<Rightarrow> scoutfs_sb_info \<Rightarrow> u64 \<Rightarrow> bool \<times> scoutfs_sb_info" where
  "sb_bread disk sbi blkno =
     (let bh = bufs sbi blkno in
      if b_uptodate bh then (True, sbi)
      else (case disk blkno of
              None \<Rightarrow> (False, sbi)
            | Some d \<Rightarrow>
                (True, sbi\<lparr>bufs := (bufs sbi)(blkno := bh\<lparr>b_data := d, b_uptodate := True\<rparr>)\<rparr>)))"

text \<open>\<open>scoutfs_block_read\<close>: \<open>Inl\<close> is the \<open>ERR_PTR\<close>, \<open>Inr blkno\<close> the buffer of that
  block.\<close>

definition scoutfs_block_read ::
  "(block_data \<Rightarrow> u32) \<Rightarrow> (u64 \<Rightarrow> block_data option) \<Rightarrow> scoutfs_sb_info \<Rightarrow> u64
     \<Rightarrow> (int + u64) \<times> scoutfs_sb_info" where
  "scoutfs_block_read crcf disk sbi blkno =
     (case sb_bread disk sbi blkno of
        (False, sbi1) \<Rightarrow> (Inl (- EIO), sbi1)
      | (True, sbi1) \<Rightarrow>
          let bh = bufs sbi1 blkno in
          if \<not> b_verified bh then
            let ret = verify_block_header crcf (super_hdr sbi1) blkno bh;
                sbi2 = (if ret = 0
                        then sbi1\<lparr>bufs := (bufs sbi1)(blkno := bh\<lparr>b_verified := True\<rparr>)\<rparr>
                        else sbi1)
            in if ret < 0 then (Inl ret, sbi2) else (Inr blkno, sbi2)
          else (Inr blkno, sbi1))"

text \<open>\<open>scoutfs_block_read_ref\<close>: a block whose seq is not the one of the reference is
  stale; its buffer loses the uptodate bit, so that the next read goes to the device, and
  the caller gets \<open>-EAGAIN\<close>. The verified bit is left as it is.\<close>

definition scoutfs_block_read_ref ::
  "(block_data \<Rightarrow> u32) \<Rightarrow> (u64 \<Rightarrow> block_data option) \<Rightarrow> scoutfs_sb_info
     \<Rightarrow> scoutfs_block_ref \<Rightarrow> (int + u64) \<times> scoutfs_sb_info" where
  "scoutfs_block_read_ref crcf disk sbi ref =
     (case scoutfs_block_read crcf disk sbi (ref_blkno ref) of
        (Inl err, sbi1) \<Rightarrow> (Inl err, sbi1)
      | (Inr bl, sbi1) \<Rightarrow>
          let bh = bufs sbi1 bl; hdr = bl_hdr (b_data bh) in
          if hdr_seq hdr \<noteq> ref_seq ref
          then (Inl (- EAGAIN), sbi1\<lparr>bufs := (bufs sbi1)(bl := bh\<lparr>b_uptodate := False\<rparr>)\<rparr>)
          else (Inr bl, sbi1))"

text \<open>\<open>insert_bhp\<close>: \<open>kmalloc_ok\<close> says whether the allocation of the private data
  succeeds.\<close>

definition insert_bhp :: "bool \<Rightarrow> scoutfs_sb_info \<Rightarrow> u64 \<Rightarrow> int \<times> scoutfs_sb_info" where
  "insert_bhp kmalloc_ok sbi blkno =
     (let bh = bufs sbi blkno in
      if b_private bh then (0, sbi)
      else if \<not> kmalloc_ok then (- ENOMEM, sbi)
      else (0, sbi\<lparr>bufs := (bufs sbi)(blkno := bh\<lparr>b_private := True\<rparr>),
                  block_dirty_tree := insort blkno (block_dirty_tree sbi)\<rparr>))"

definition erase_bhp :: "scoutfs_sb_info \<Rightarrow> u64 \<Rightarrow> scoutfs_sb_info" where
  "erase_bhp sbi blkno =
     sbi\<lparr>block_dirty_tree := remove1 blkno (block_dirty_tree sbi),
         bufs := (bufs sbi)(blkno := (bufs sbi blkno)\<lparr>b_private := False\<rparr>)\<rparr>"

text \<open>What the calls outside the block layer return during one \<open>scoutfs_block_dirty_ref\<close>:
  \<open>scoutfs_buddy_alloc_same\<close> (its \<open>ret\<close> and the block number it stores), \<open>sb_getblk\<close>,
  the \<open>kmalloc\<close> of \<open>insert_bhp\<close>, and the two calls of \<open>scoutfs_buddy_free\<close>.\<close>

record dirty_env =
  alloc_same_ret :: int
  alloc_same_blkno :: u64
  getblk_ok :: bool
  kmalloc_ok :: bool
  buddy_free_ret :: int
  buddy_free_copy_ret :: int

text \<open>Modelled from the spec: \<open>scoutfs_buddy_free\<close> is in \<open>buddy.c\<close>, which is not among
  the sources. \<open>free(seq, blkno)\<close> pushes the block into the current freed pool together
  with the seq of the transaction that wrote it; a failing call, whose \<open>ret\<close> is given,
  changes nothing.\<close>

definition scoutfs_buddy_free ::
  "int \<Rightarrow> scoutfs_sb_info \<Rightarrow> u64 \<Rightarrow> u64 \<Rightarrow> int \<times> scoutfs_sb_info" where
  "scoutfs_buddy_free ret sbi seq blkno =
     (if ret = 0 then (0, sbi\<lparr>buddy_freed := buddy_freed sbi @ [(seq, blkno)]\<rparr>) else (ret, sbi))"

text \<open>\<open>scoutfs_block_dirty\<close>: the buffer of \<open>blkno\<close> joins the dirty tree and its header
  becomes the super block's header with this \<open>blkno\<close> and the dirty seq.\<close>

definition scoutfs_block_dirty ::
  "dirty_env \<Rightarrow> scoutfs_sb_info \<Rightarrow> u64 \<Rightarrow> (int + u64) \<times> scoutfs_sb_info" where
  "scoutfs_block_dirty env sbi blkno =
     (if \<not> getblk_ok env then (Inl (- ENOMEM), sbi)
      else (case insert_bhp (kmalloc_ok env) sbi blkno of
              (ret, sbi1) \<Rightarrow>
                if ret < 0 then (Inl ret, sbi1)
                else
                  let bh = bufs sbi1 blkno;
                      hdr = (super_hdr sbi1)\<lparr>hdr_blkno := blkno, hdr_seq := hdr_seq (super_hdr sbi1)\<rparr>;
                      bh' = bh\<lparr>b_data := (b_data bh)\<lparr>bl_hdr := hdr\<rparr>,
                               b_uptodate := True, b_verified := True\<rparr>
                  in (Inr blkno, sbi1\<lparr>bufs := (bufs sbi1)(blkno := bh')\<rparr>)))"

text \<open>\<open>scoutfs_block_dirty_ref\<close>. The result is the returned block or \<open>ERR_PTR\<close>, the
  state, and the caller's reference, which is written only on the last path.\<close>

definition scoutfs_block_dirty_ref ::
  "(block_data \<Rightarrow> u32) \<Rightarrow> (u64 \<Rightarrow> block_data option) \<Rightarrow> dirty_env \<Rightarrow> scoutfs_sb_info
     \<Rightarrow> scoutfs_block_ref \<Rightarrow> (int + u64) \<times> scoutfs_sb_info \<times> scoutfs_block_ref" where
  "scoutfs_block_dirty_ref crcf disk env sbi ref =
     (case scoutfs_block_read crcf disk sbi (ref_blkno ref) of
        (Inl err, sbi1) \<Rightarrow> (Inl err, sbi1, ref)
      | (Inr bl, sbi1) \<Rightarrow>
          if ref_seq ref = hdr_seq (super_hdr sbi1) then (Inr bl, sbi1, ref)
          else if alloc_same_ret env < 0 then (Inl (alloc_same_ret env), sbi1, ref)
          else
            let blkno = alloc_same_blkno env in
            (case scoutfs_block_dirty env sbi1 blkno of
               (Inl err, sbi2) \<Rightarrow> (Inl err, sbi2, ref)
             | (Inr copy_bl, sbi2) \<Rightarrow>
                 let hdr = bl_hdr (b_data (bufs sbi2 bl)) in
                 (case scoutfs_buddy_free (buddy_free_ret env) sbi2 (hdr_seq hdr) (hdr_blkno hdr) of
                    (ret, sbi3) \<Rightarrow>
                      if ret \<noteq> 0 then
                        (case scoutfs_buddy_free (buddy_free_copy_ret env) sbi3
                                (hdr_seq (super_hdr sbi3)) blkno of
                           (err, sbi4) \<Rightarrow> (Inl ret, sbi4, ref))
                      else
                        let copied = b_data (bufs sbi3 bl);
                            hdr' = (bl_hdr copied)\<lparr>hdr_blkno := blkno,
                                                    hdr_seq := hdr_seq (super_hdr sbi3)\<rparr>;
                            bh' = (bufs sbi3 copy_bl)\<lparr>b_data := copied\<lparr>bl_hdr := hdr'\<rparr>\<rparr>
                        in (Inr copy_bl, sbi3\<lparr>bufs := (bufs sbi3)(copy_bl := bh')\<rparr>,
                            \<lparr>ref_blkno = hdr_blkno hdr', ref_seq = hdr_seq hdr'\<rparr>))))"

text \<open>What the device does with the writes of one commit: what \<open>submit_bh\<close> returns for
  a block, and whether its I/O then completes successfully (\<open>uptodate\<close> in the completion
  callback). A write whose submission fails has no completion.\<close>

record write_env =
  submit_ret :: "u64 \<Rightarrow> int"
  io_uptodate :: "u64 \<Rightarrow> bool"

definition scoutfs_block_set_crc ::
  "(block_data \<Rightarrow> u32) \<Rightarrow> scoutfs_sb_info \<Rightarrow> u64 \<Rightarrow> scoutfs_sb_info" where
  "scoutfs_block_set_crc crcf sbi blkno =
     (let bh = bufs sbi blkno; d = b_data bh
      in sbi\<lparr>bufs := (bufs sbi)(blkno := bh\<lparr>b_data := d\<lparr>bl_hdr := (bl_hdr d)\<lparr>hdr_crc := crcf d\<rparr>\<rparr>\<rparr>)\<rparr>)"

definition block_write_end_io :: "scoutfs_sb_info \<Rightarrow> u64 \<Rightarrow> bool \<Rightarrow> scoutfs_sb_info" where
  "block_write_end_io sbi blkno uptodate =
     (let sbi1 = (if uptodate then erase_bhp sbi blkno
                  else if block_write_err sbi = 0 then sbi\<lparr>block_write_err := - EIO\<rparr>
                  else sbi)
      in sbi1\<lparr>block_writes := block_writes sbi1 - 1\<rparr>)"

text \<open>The \<open>while (node)\<close> loop of \<open>scoutfs_block_write_dirty\<close> over the nodes of the dirty
  tree. The successor is taken before the block is submitted, so the completions, which
  only erase blocks already submitted, do not disturb the walk.\<close>

fun write_dirty_loop ::
  "(block_data \<Rightarrow> u32) \<Rightarrow> write_env \<Rightarrow> u64 list \<Rightarrow> int \<Rightarrow> scoutfs_sb_info
     \<Rightarrow> int \<times> scoutfs_sb_info" where
  "write_dirty_loop crcf env [] ret sbi = (ret, sbi)"
| "write_dirty_loop crcf env (blkno # nodes) ret sbi =
     (let sbi1 = sbi\<lparr>block_writes := block_writes sbi + 1\<rparr>;
          sbi2 = scoutfs_block_set_crc crcf sbi1 blkno;
          ret = submit_ret env blkno;
          sbi3 = (if ret = 0 then block_write_end_io sbi2 blkno (io_uptodate env blkno) else sbi2)
      in if ret \<noteq> 0 then (ret, sbi3) else write_dirty_loop crcf env nodes ret sbi3)"

text \<open>\<open>scoutfs_block_write_dirty\<close> returns once \<open>block_writes\<close> has dropped to 0; \<open>None\<close>
  is a \<open>wait_event\<close> that is never satisfied.\<close>

definition scoutfs_block_write_dirty ::
  "(block_data \<Rightarrow> u32) \<Rightarrow> write_env \<Rightarrow> scoutfs_sb_info \<Rightarrow> int option \<times> scoutfs_sb_info" where
  "scoutfs_block_write_dirty crcf env sbi =
     (let sbi1 = sbi\<lparr>block_writes := 1, block_write_err := 0\<rparr> in
      case write_dirty_loop crcf env (block_dirty_tree sbi1) 0 sbi1 of
        (ret, sbi2) \<Rightarrow>
          let sbi3 = sbi2\<lparr>block_writes := block_writes sbi2 - 1\<rparr>
          in (if block_writes sbi3 = 0 then Some ret else None, sbi3))"

section \<open>Properties\<close>

subsection \<open>Inode allocation\<close>

lemma u64_max_minus: "unat (U64_MAX - i) = 2 ^ 64 - 1 - unat (i :: u64)"
proof -
  have "i \<le> - 1" by simp
  then have "unat (- 1 - i) = unat (- 1 :: u64) - unat i"
    by (rule unat_sub)
  then show ?thesis
    by (simp add: U64_MAX_def unsigned_minus_1_eq_mask mask_eq_exp_minus_1)
qed

lemma alloc_nr_no_wrap:
  "unat (i + min c (U64_MAX - i)) = unat (i :: u64) + unat (min c (U64_MAX - i))"
proof -
  have "min c (U64_MAX - i) \<le> U64_MAX - i" by simp
  then have "unat (min c (U64_MAX - i)) \<le> unat (U64_MAX - i)"
    by (simp only: word_le_nat_alt)
  moreover have "unat i < 2 ^ 64" using unsigned_less [of i] by simp
  ultimately have "unat i + unat (min c (U64_MAX - i)) < 2 ^ 64"
    by (simp add: u64_max_minus)
  then show ?thesis by (simp add: unat_add_lem [THEN iffD1])
qed

text \<open>C6. ALLOC_INODES with an 8-byte count \<open>c\<close> and \<open>next_ino = i\<close> reserves
  \<open>nr = min c (U64_MAX - i)\<close> inodes: \<open>next_ino\<close> becomes \<open>i + nr\<close> without wrapping, a
  successful commit is answered with \<open>{ino = i, nr}\<close>, and when \<open>i + c\<close> would pass
  \<open>U64_MAX\<close> then \<open>next_ino\<close> ends at \<open>U64_MAX\<close> with the clamped count (0 when
  \<open>i = U64_MAX\<close>).\<close>

theorem alloc_inodes_saturates:
  assumes len: "length arg = 8"
    and res: "server_alloc_inodes st cmd req_id arg commit_ret = (st', resp)"
  shows "next_ino st' = next_ino st + min (le64_to_cpu arg) (U64_MAX - next_ino st)
    \<and> unat (next_ino st') = unat (next_ino st) + unat (min (le64_to_cpu arg) (U64_MAX - next_ino st))
    \<and> (commit_ret = 0 \<longrightarrow> resp = \<lparr>resp_cmd = cmd, resp_id = req_id, resp_error = 0,
          resp_data = \<lparr>ial_ino = next_ino st,
                       ial_nr = min (le64_to_cpu arg) (U64_MAX - next_ino st)\<rparr>\<rparr>)
    \<and> (2 ^ 64 \<le> unat (next_ino st) + unat (le64_to_cpu arg) \<longrightarrow>
          next_ino st' = U64_MAX
          \<and> min (le64_to_cpu arg) (U64_MAX - next_ino st) = U64_MAX - next_ino st)
    \<and> (next_ino st = U64_MAX \<longrightarrow> min (le64_to_cpu arg) (U64_MAX - next_ino st) = 0)"
proof -
  let ?i = "next_ino st"
  let ?c = "le64_to_cpu arg"
  let ?nr = "min ?c (U64_MAX - ?i)"
  have st': "st' = st\<lparr>next_ino := ?i + ?nr\<rparr>"
    using len res
    by (simp add: server_alloc_inodes_def scoutfs_server_hold_commit_def Let_def)
  have resp: "commit_ret = 0 \<Longrightarrow> resp = \<lparr>resp_cmd = cmd, resp_id = req_id, resp_error = 0,
      resp_data = \<lparr>ial_ino = ?i, ial_nr = ?nr\<rparr>\<rparr>"
    using len res
    by (simp add: server_alloc_inodes_def scoutfs_server_hold_commit_def
        scoutfs_server_apply_commit_def Let_def)
  have a: "next_ino st' = ?i + ?nr" by (simp add: st')
  have b: "unat (next_ino st') = unat ?i + unat ?nr"
    by (simp add: st' alloc_nr_no_wrap)
  have d: "?nr = U64_MAX - ?i \<and> next_ino st' = U64_MAX"
    if over: "2 ^ 64 \<le> unat ?i + unat ?c"
  proof -
    have "unat (U64_MAX - ?i) \<le> unat ?c"
      using over by (simp add: u64_max_minus)
    then have "U64_MAX - ?i \<le> ?c" by (simp add: word_le_nat_alt)
    then have "?nr = U64_MAX - ?i" by (simp add: min_def)
    then show ?thesis by (simp add: st')
  qed
  have e: "?nr = 0" if "?i = U64_MAX"
    using that by (simp add: min_def)
  from a b resp d e show ?thesis by blast
qed

theorem alloc_inodes_saturates_witness:
  "server_alloc_inodes \<lparr>next_ino = U64_MAX - 2, next_trans_seq = 1, trans_seqs = [], btree_faults = []\<rparr>
      1 7 [5, 0, 0, 0, 0, 0, 0, 0] 0
   = (\<lparr>next_ino = U64_MAX, next_trans_seq = 1, trans_seqs = [], btree_faults = []\<rparr>,
      \<lparr>resp_cmd = 1, resp_id = 7, resp_error = 0,
       resp_data = \<lparr>ial_ino = U64_MAX - 2, ial_nr = 2\<rparr>\<rparr>)
   \<and> next_ino \<lparr>next_ino = U64_MAX, next_trans_seq = 1, trans_seqs = [], btree_faults = []\<rparr> = U64_MAX"
proof -
  have len: "length [5, 0, 0, 0, 0, 0, 0, 0 :: u8] = 8" by simp
  have run: "server_alloc_inodes \<lparr>next_ino = U64_MAX - 2, next_trans_seq = 1, trans_seqs = [], btree_faults = []\<rparr>
      1 7 [5, 0, 0, 0, 0, 0, 0, 0] 0
   = (\<lparr>next_ino = U64_MAX, next_trans_seq = 1, trans_seqs = [], btree_faults = []\<rparr>,
      \<lparr>resp_cmd = 1, resp_id = 7, resp_error = 0,
       resp_data = \<lparr>ial_ino = U64_MAX - 2, ial_nr = 2\<rparr>\<rparr>)"
    by (simp add: server_alloc_inodes_def scoutfs_server_hold_commit_def
        scoutfs_server_apply_commit_def Let_def U64_MAX_def)
  from alloc_inodes_saturates [OF len run] run show ?thesis by simp
qed

subsection \<open>The trans-seq removal loop\<close>

lemma skts_rid_key: "skts_rid (trans_seq_key it) = snd it"
  by (simp add: skts_rid_def trans_seq_key_def init_trans_seq_key_def)

lemma trans_seq_key_inj: "trans_seq_key a = trans_seq_key b \<longleftrightarrow> a = b"
  by (auto simp: trans_seq_key_def init_trans_seq_key_def prod_eq_iff)

lemma loop_none:
  assumes nx: "scoutfs_btree_next trans_seq_key tree faults key = (Inl err, fs)"
  shows "remove_trans_seq_loop rid tree faults key = (if err = - ENOENT then 0 else err, tree, fs)"
  by (subst remove_trans_seq_loop.simps) (simp only: nx prod.case sum.case)

lemma loop_skip:
  assumes nx: "scoutfs_btree_next trans_seq_key tree faults key = (Inr found, fs)"
    and "snd found \<noteq> rid"
  shows "remove_trans_seq_loop rid tree faults key
       = remove_trans_seq_loop rid tree fs (scoutfs_key_inc (trans_seq_key found))"
  by (subst remove_trans_seq_loop.simps)
     (simp only: nx prod.case sum.case Let_def skts_rid_key assms(2) if_False)

lemma loop_del:
  assumes nx: "scoutfs_btree_next trans_seq_key tree faults key = (Inr found, fs)"
    and "snd found = rid"
    and d: "scoutfs_btree_delete trans_seq_key tree fs (trans_seq_key found) = (dret, tree2, fs2)"
  shows "remove_trans_seq_loop rid tree faults key
       = (if dret < 0 then (dret, tree2, fs2)
          else remove_trans_seq_loop rid tree2 fs2 (scoutfs_key_inc (trans_seq_key found)))"
  by (subst remove_trans_seq_loop.simps)
     (simp only: nx prod.case sum.case Let_def skts_rid_key assms(2) simp_thms if_True d)
lemma btree_delete_cases:
  assumes "scoutfs_btree_delete key_of tree faults key = (ret, tree', fs')"
  shows "(ret < 0 \<and> tree' = tree) \<or>
         (ret = 0 \<and> tree' = filter (\<lambda>it. key_of it \<noteq> key) tree)"
  using assms
  by (auto simp: scoutfs_btree_delete_def ENOENT_def split: prod.splits if_splits)

lemma btree_delete_no_fault:
  assumes "key \<in> key_of ` set tree"
  shows "scoutfs_btree_delete key_of tree [] key
           = (0, filter (\<lambda>it. key_of it \<noteq> key) tree, [])"
  using assms by (simp add: scoutfs_btree_delete_def btree_io_def)

lemma remove_loop_step [consumes 1, case_names none del_err del_ok skip]:
  assumes run: "remove_trans_seq_loop rid tree faults key = (ret, tree', fs')"
    and none: "\<And>err fs. scoutfs_btree_next trans_seq_key tree faults key = (Inl err, fs) \<Longrightarrow>
        tree' = tree \<Longrightarrow> fs' = fs \<Longrightarrow> ret = (if err = - ENOENT then 0 else err) \<Longrightarrow> Q"
    and del_err: "\<And>found fs tree2.
        scoutfs_btree_next trans_seq_key tree faults key = (Inr found, fs) \<Longrightarrow>
        snd found = rid \<Longrightarrow>
        scoutfs_btree_delete trans_seq_key tree fs (trans_seq_key found) = (ret, tree2, fs') \<Longrightarrow>
        ret < 0 \<Longrightarrow> tree' = tree2 \<Longrightarrow> Q"
    and del_ok: "\<And>found fs dret tree2 fs2.
        scoutfs_btree_next trans_seq_key tree faults key = (Inr found, fs) \<Longrightarrow>
        snd found = rid \<Longrightarrow>
        scoutfs_btree_delete trans_seq_key tree fs (trans_seq_key found) = (dret, tree2, fs2) \<Longrightarrow>
        \<not> dret < 0 \<Longrightarrow>
        remove_trans_seq_loop rid tree2 fs2 (scoutfs_key_inc (trans_seq_key found))
          = (ret, tree', fs') \<Longrightarrow> Q"
    and skip: "\<And>found fs.
        scoutfs_btree_next trans_seq_key tree faults key = (Inr found, fs) \<Longrightarrow>
        snd found \<noteq> rid \<Longrightarrow>
        remove_trans_seq_loop rid tree fs (scoutfs_key_inc (trans_seq_key found))
          = (ret, tree', fs') \<Longrightarrow> Q"
  shows Q
proof -
  obtain r fs where nx: "scoutfs_btree_next trans_seq_key tree faults key = (r, fs)"
    by (cases "scoutfs_btree_next trans_seq_key tree faults key") blast
  show Q
  proof (cases r)
    case (Inl err)
    with nx have nx': "scoutfs_btree_next trans_seq_key tree faults key = (Inl err, fs)" by simp
    from run loop_none [OF nx', of rid] show Q using none [OF nx'] by simp
  next
    case (Inr found)
    with nx have nx': "scoutfs_btree_next trans_seq_key tree faults key = (Inr found, fs)" by simp
    show Q
    proof (cases "snd found = rid")
      case True
      obtain dret tree2 fs2 where
        d: "scoutfs_btree_delete trans_seq_key tree fs (trans_seq_key found) = (dret, tree2, fs2)"
        by (cases "scoutfs_btree_delete trans_seq_key tree fs (trans_seq_key found)") blast
      note r = loop_del [OF nx' True d]
      show Q
      proof (cases "dret < 0")
        case neg: True
        with r run have "dret = ret" "tree2 = tree'" "fs2 = fs'" by simp_all
        then show Q using del_err [OF nx' True] d neg by simp
      next
        case False
        with r run show Q using del_ok [OF nx' True d] by simp
      qed
    next
      case False
      from run loop_skip [OF nx' False] show Q using skip [OF nx' False] by simp
    qed
  qed
qed

lemma remove_loop_frame:
  "remove_trans_seq_loop rid tree faults key = (ret, tree', fs') \<Longrightarrow>
     filter (\<lambda>it. snd it \<noteq> rid) tree' = filter (\<lambda>it. snd it \<noteq> rid) tree"
proof (induction rid tree faults key rule: remove_trans_seq_loop.induct)
  case (1 rid tree faults key)
  from "1.prems" show ?case
  proof (cases rule: remove_loop_step)
    case (none err fs)
    then show ?thesis by simp
  next
    case (del_err found fs tree2)
    with btree_delete_cases [OF del_err(3)] show ?thesis by simp
  next
    case (del_ok found fs dret tree2 fs2)
    from btree_delete_cases [OF del_ok(3)] del_ok(4)
    have t2: "tree2 = filter (\<lambda>it. trans_seq_key it \<noteq> trans_seq_key found) tree" by simp
    have "skts_rid (trans_seq_key found) = rid" using del_ok(2) by (simp add: skts_rid_key)
    from "1.IH"(1) [OF del_ok(1) [symmetric] refl refl this del_ok(3) [symmetric] refl del_ok(4) del_ok(5)]
    have "filter (\<lambda>it. snd it \<noteq> rid) tree' = filter (\<lambda>it. snd it \<noteq> rid) tree2" .
    also have "\<dots> = filter (\<lambda>it. snd it \<noteq> rid) tree"
      unfolding t2 using del_ok(2)
      by (auto simp: filter_filter trans_seq_key_inj intro!: filter_cong)
    finally show ?thesis .
  next
    case (skip found fs)
    have "skts_rid (trans_seq_key found) \<noteq> rid" using skip(2) by (simp add: skts_rid_key)
    from "1.IH"(2) [OF skip(1) [symmetric] refl refl this skip(3)]
    show ?thesis .
  qed
qed

lemma cursor_advance:
  assumes nx: "scoutfs_btree_next trans_seq_key tree faults key = (Inr found, fs)"
    and it: "it \<in> set tree" and ne: "it \<noteq> found"
  shows "scoutfs_key_inc (trans_seq_key found) \<le> trans_seq_key it
         \<longleftrightarrow> key \<le> trans_seq_key it"
proof
  from btree_next_found [OF nx] have le: "key \<le> trans_seq_key found"
    and least: "\<And>j. j \<in> set tree \<Longrightarrow> key \<le> trans_seq_key j
        \<Longrightarrow> trans_seq_key found \<le> trans_seq_key j" by auto
  {
    assume "scoutfs_key_inc (trans_seq_key found) \<le> trans_seq_key it"
    with trans_seq_key_less_inc [of found] le show "key \<le> trans_seq_key it"
      by (meson order.trans less_imp_le)
  next
    assume "key \<le> trans_seq_key it"
    then have "trans_seq_key found \<le> trans_seq_key it" using it by (rule least [rotated])
    moreover have "trans_seq_key found \<noteq> trans_seq_key it"
      using ne by (simp add: trans_seq_key_inj)
    ultimately have "trans_seq_key found < trans_seq_key it" by simp
    then show "scoutfs_key_inc (trans_seq_key found) \<le> trans_seq_key it"
      by (rule trans_seq_key_inc_le)
  }
qed

lemma remove_loop_exact_aux:
  "faults = [] \<Longrightarrow>
   remove_trans_seq_loop rid tree faults key
     = (0, filter (\<lambda>it. \<not> (key \<le> trans_seq_key it \<and> snd it = rid)) tree, [])"
proof (induction rid tree faults key rule: remove_trans_seq_loop.induct)
  case (1 rid tree faults key)
  note nofault = "1.prems"
  obtain r fs where nx: "scoutfs_btree_next trans_seq_key tree faults key = (r, fs)"
    by (cases "scoutfs_btree_next trans_seq_key tree faults key") blast
  have fs: "fs = []" using nx nofault by (auto dest: btree_next_no_fault)
  show ?case
  proof (cases r)
    case (Inl err)
    with nx nofault have nx': "scoutfs_btree_next trans_seq_key tree [] key = (Inl err, fs)"
      by simp
    from btree_next_none [OF nx'] have e: "err = - ENOENT"
      and none: "\<forall>j \<in> set tree. \<not> key \<le> trans_seq_key j" by auto
    have "filter (\<lambda>it. \<not> (key \<le> trans_seq_key it \<and> snd it = rid)) tree = tree"
      using none by (simp add: filter_id_conv)
    then show ?thesis using loop_none [of tree faults key err fs rid] nx Inl e fs by simp
  next
    case (Inr found)
    with nx have nx': "scoutfs_btree_next trans_seq_key tree faults key = (Inr found, fs)"
      by simp
    from btree_next_found [OF nx'] have mem: "found \<in> set tree"
      and le: "key \<le> trans_seq_key found" by auto
    note adv = cursor_advance [OF nx']
    show ?thesis
    proof (cases "snd found = rid")
      case True
      have d: "scoutfs_btree_delete trans_seq_key tree fs (trans_seq_key found)
          = (0, filter (\<lambda>it. trans_seq_key it \<noteq> trans_seq_key found) tree, [])"
        unfolding fs using mem by (intro btree_delete_no_fault) simp
      have rid: "skts_rid (trans_seq_key found) = rid" using True by (simp add: skts_rid_key)
      have "remove_trans_seq_loop rid tree faults key
          = remove_trans_seq_loop rid (filter (\<lambda>it. trans_seq_key it \<noteq> trans_seq_key found) tree)
              [] (scoutfs_key_inc (trans_seq_key found))"
        using loop_del [OF nx' True d] by simp
      also have "\<dots> = (0, filter (\<lambda>it. \<not> (scoutfs_key_inc (trans_seq_key found) \<le> trans_seq_key it
              \<and> snd it = rid))
            (filter (\<lambda>it. trans_seq_key it \<noteq> trans_seq_key found) tree), [])"
        by (rule "1.IH"(1) [OF nx' [symmetric] refl refl rid d [symmetric] refl _ refl]) simp
      also have "filter (\<lambda>it. \<not> (scoutfs_key_inc (trans_seq_key found) \<le> trans_seq_key it
              \<and> snd it = rid))
            (filter (\<lambda>it. trans_seq_key it \<noteq> trans_seq_key found) tree)
          = filter (\<lambda>it. \<not> (key \<le> trans_seq_key it \<and> snd it = rid)) tree"
        unfolding filter_filter
      proof (rule filter_cong [OF refl])
        fix it assume it: "it \<in> set tree"
        show "(trans_seq_key it \<noteq> trans_seq_key found \<and>
            \<not> (scoutfs_key_inc (trans_seq_key found) \<le> trans_seq_key it \<and> snd it = rid))
          = (\<not> (key \<le> trans_seq_key it \<and> snd it = rid))"
        proof (cases "it = found")
          case True
          then show ?thesis using le \<open>snd found = rid\<close> by simp
        next
          case False
          then show ?thesis using adv [OF it False] by (simp add: trans_seq_key_inj)
        qed
      qed
      finally show ?thesis .
    next
      case False
      have rid: "skts_rid (trans_seq_key found) \<noteq> rid" using False by (simp add: skts_rid_key)
      have "remove_trans_seq_loop rid tree faults key
          = remove_trans_seq_loop rid tree fs (scoutfs_key_inc (trans_seq_key found))"
        by (rule loop_skip [OF nx' False])
      also have "\<dots> = (0, filter (\<lambda>it. \<not> (scoutfs_key_inc (trans_seq_key found) \<le> trans_seq_key it
              \<and> snd it = rid)) tree, [])"
        by (rule "1.IH"(2) [OF nx' [symmetric] refl refl rid fs])
      also have "filter (\<lambda>it. \<not> (scoutfs_key_inc (trans_seq_key found) \<le> trans_seq_key it
              \<and> snd it = rid)) tree
          = filter (\<lambda>it. \<not> (key \<le> trans_seq_key it \<and> snd it = rid)) tree"
      proof (rule filter_cong [OF refl])
        fix it assume it: "it \<in> set tree"
        show "(\<not> (scoutfs_key_inc (trans_seq_key found) \<le> trans_seq_key it \<and> snd it = rid))
          = (\<not> (key \<le> trans_seq_key it \<and> snd it = rid))"
        proof (cases "it = found")
          case True
          then show ?thesis using False by simp
        next
          case ne: False
          then show ?thesis using adv [OF it ne] by simp
        qed
      qed
      finally show ?thesis .
    qed
  qed
qed

lemma zero_key_least: "(0, 0, 0) \<le> (k :: scoutfs_key)"
  by (cases k) (simp add: less_eq_prod_def less_prod_def word_neq_0_conv [symmetric] word_gt_0)

lemma remove_loop_exact:
  "remove_trans_seq_loop rid tree [] (init_trans_seq_key 0 0)
     = (0, filter (\<lambda>it. snd it \<noteq> rid) tree, [])"
  unfolding init_trans_seq_key_def
  by (subst remove_loop_exact_aux [OF refl]) (simp add: zero_key_least)

lemma remove_loop_subset:
  "remove_trans_seq_loop rid tree faults key = (ret, tree', fs') \<Longrightarrow> set tree' \<subseteq> set tree"
proof (induction rid tree faults key rule: remove_trans_seq_loop.induct)
  case (1 rid tree faults key)
  from "1.prems" show ?case
  proof (cases rule: remove_loop_step)
    case (none err fs)
    then show ?thesis by simp
  next
    case (del_err found fs tree2)
    with btree_delete_cases [OF del_err(3)] show ?thesis by simp
  next
    case (del_ok found fs dret tree2 fs2)
    from btree_delete_cases [OF del_ok(3)] del_ok(4)
    have t2: "tree2 = filter (\<lambda>it. trans_seq_key it \<noteq> trans_seq_key found) tree" by simp
    have "skts_rid (trans_seq_key found) = rid" using del_ok(2) by (simp add: skts_rid_key)
    from "1.IH"(1) [OF del_ok(1) [symmetric] refl refl this del_ok(3) [symmetric] refl del_ok(4) del_ok(5)]
    have "set tree' \<subseteq> set tree2" .
    then show ?thesis unfolding t2 by auto
  next
    case (skip found fs)
    have "skts_rid (trans_seq_key found) \<noteq> rid" using skip(2) by (simp add: skts_rid_key)
    from "1.IH"(2) [OF skip(1) [symmetric] refl refl this skip(3)]
    show ?thesis .
  qed
qed

text \<open>C10. Removing the trans-seq items of \<open>rid\<close> leaves every item of another rid in
  place, in order, whatever btree call fails on the way, and adds nothing; when no call
  fails it returns 0 and the tree is exactly the items of the other rids.
  \<open>remove_trans_seq\<close>, used by farewell and reclaim, does the same.\<close>

theorem remove_trans_seq_only_rid:
  assumes run: "remove_trans_seq_locked rid st = (ret, st')"
  shows "filter (\<lambda>it. snd it \<noteq> rid) (trans_seqs st') = filter (\<lambda>it. snd it \<noteq> rid) (trans_seqs st)
    \<and> set (trans_seqs st') \<subseteq> set (trans_seqs st)
    \<and> (btree_faults st = [] \<longrightarrow>
          ret = 0 \<and> trans_seqs st' = filter (\<lambda>it. snd it \<noteq> rid) (trans_seqs st))
    \<and> remove_trans_seq rid st = (ret, st')
    \<and> next_ino st' = next_ino st \<and> next_trans_seq st' = next_trans_seq st"
proof -
  obtain r tree fs where loop: "remove_trans_seq_loop rid (trans_seqs st) (btree_faults st)
      (init_trans_seq_key 0 0) = (r, tree, fs)"
    by (cases "remove_trans_seq_loop rid (trans_seqs st) (btree_faults st) (init_trans_seq_key 0 0)")
      auto
  from run loop have ret: "ret = r" and st': "st' = st\<lparr>trans_seqs := tree, btree_faults := fs\<rparr>"
    by (auto simp: remove_trans_seq_locked_def)
  have a: "filter (\<lambda>it. snd it \<noteq> rid) (trans_seqs st') = filter (\<lambda>it. snd it \<noteq> rid) (trans_seqs st)"
    using remove_loop_frame [OF loop] by (simp add: st')
  have b: "set (trans_seqs st') \<subseteq> set (trans_seqs st)"
    using remove_loop_subset [OF loop] by (simp add: st')
  have c: "ret = 0 \<and> trans_seqs st' = filter (\<lambda>it. snd it \<noteq> rid) (trans_seqs st)"
    if "btree_faults st = []"
    using loop that by (simp add: remove_loop_exact ret st')
  have d: "remove_trans_seq rid st = (ret, st')" using run by (simp add: remove_trans_seq_def)
  have e: "next_ino st' = next_ino st \<and> next_trans_seq st' = next_trans_seq st" by (simp add: st')
  from a b c d e show ?thesis by blast
qed

theorem remove_trans_seq_only_rid_witness:
  "remove_trans_seq_locked 7
     \<lparr>next_ino = 1, next_trans_seq = 9, trans_seqs = [(1, 7), (2, 3), (5, 7), (6, 1)], btree_faults = []\<rparr>
   = (0, \<lparr>next_ino = 1, next_trans_seq = 9, trans_seqs = [(2, 3), (6, 1)], btree_faults = []\<rparr>)
   \<and> btree_faults \<lparr>next_ino = 1, next_trans_seq = 9, trans_seqs = [(1, 7), (2, 3), (5, 7), (6, 1)],
        btree_faults = []\<rparr> = []
   \<and> filter (\<lambda>it. snd it \<noteq> 7) [(1, 7), (2, 3), (5, 7), (6, 1 :: u64)] = [(2, 3), (6, 1 :: u64)]"
proof -
  obtain ret st' where run: "remove_trans_seq_locked 7
     \<lparr>next_ino = 1, next_trans_seq = 9, trans_seqs = [(1, 7), (2, 3), (5, 7), (6, 1)], btree_faults = []\<rparr>
     = (ret, st')"
    by (cases "remove_trans_seq_locked 7
     \<lparr>next_ino = 1, next_trans_seq = 9, trans_seqs = [(1, 7), (2, 3), (5, 7), (6, 1)], btree_faults = []\<rparr>")
     blast
  from remove_trans_seq_only_rid [OF run]
  have "ret = 0" and t: "trans_seqs st' = [(2, 3), (6, 1)]"
    and n: "next_ino st' = 1" "next_trans_seq st' = 9" by simp_all
  moreover have "btree_faults st' = []"
    using run by (auto simp: remove_trans_seq_locked_def remove_loop_exact)
  ultimately have "st' = \<lparr>next_ino = 1, next_trans_seq = 9, trans_seqs = [(2, 3), (6, 1)], btree_faults = []\<rparr>"
    by (cases st') simp
  with run \<open>ret = 0\<close> show ?thesis by simp
qed

subsection \<open>ADVANCE_SEQ and GET_LAST_SEQ\<close>

lemma btree_insert_no_fault:
  assumes "key_of it \<notin> key_of ` set tree"
  shows "scoutfs_btree_insert key_of tree [] it = (0, insort_key key_of it tree, [])"
  using assms by (simp add: scoutfs_btree_insert_def btree_io_def)

text \<open>C7. ADVANCE_SEQ from \<open>rid\<close> with an empty payload, \<open>next_trans_seq = s\<close> and no
  failing btree call: every item of \<open>rid\<close> is removed, \<open>(s, rid)\<close> is inserted and is then
  the only item of \<open>rid\<close>, \<open>next_trans_seq\<close> becomes \<open>s + 1\<close>, the response carries the
  commit's result, and on commit success its payload is \<open>s\<close>.\<close>

theorem advance_seq_effect:
  assumes len: "length arg = 0"
    and nofault: "btree_faults st = []"
    and run: "server_advance_seq st rid cmd req_id arg commit_ret = (st', resp)"
  shows "trans_seqs st' = insort_key trans_seq_key (next_trans_seq st, rid)
                            (filter (\<lambda>it. snd it \<noteq> rid) (trans_seqs st))
    \<and> set (trans_seqs st') = {it \<in> set (trans_seqs st). snd it \<noteq> rid} \<union> {(next_trans_seq st, rid)}
    \<and> {it \<in> set (trans_seqs st'). snd it = rid} = {(next_trans_seq st, rid)}
    \<and> next_trans_seq st' = next_trans_seq st + 1
    \<and> resp_error resp = commit_ret
    \<and> (commit_ret = 0 \<longrightarrow> resp = \<lparr>resp_cmd = cmd, resp_id = req_id, resp_error = 0,
                                     resp_data = next_trans_seq st\<rparr>)"
proof -
  let ?kept = "filter (\<lambda>it. snd it \<noteq> rid) (trans_seqs st)"
  let ?s = "next_trans_seq st"
  have rm: "remove_trans_seq_locked rid st = (0, st\<lparr>trans_seqs := ?kept, btree_faults := []\<rparr>)"
    by (simp add: remove_trans_seq_locked_def nofault remove_loop_exact)
  have fresh: "trans_seq_key (?s, rid) \<notin> trans_seq_key ` set ?kept"
    by (auto simp: trans_seq_key_inj)
  note ins = btree_insert_no_fault [of trans_seq_key "(?s, rid)" ?kept, OF fresh]
  from run have st': "st' = st\<lparr>trans_seqs := insort_key trans_seq_key (?s, rid) ?kept,
      btree_faults := [], next_trans_seq := ?s + 1\<rparr>"
    and resp: "resp = \<lparr>resp_cmd = cmd, resp_id = req_id,
      resp_error = scoutfs_server_apply_commit 0 commit_ret, resp_data = ?s\<rparr>"
    using len by (auto simp: server_advance_seq_def scoutfs_server_hold_commit_def rm ins Let_def)
  have a: "trans_seqs st' = insort_key trans_seq_key (?s, rid) ?kept" by (simp add: st')
  have b: "set (trans_seqs st') = {it \<in> set (trans_seqs st). snd it \<noteq> rid} \<union> {(?s, rid)}"
    by (auto simp: a set_insort_key)
  have c: "{it \<in> set (trans_seqs st'). snd it = rid} = {(?s, rid)}"
    unfolding b by auto
  have d: "next_trans_seq st' = ?s + 1" by (simp add: st')
  have e: "resp_error resp = commit_ret" by (simp add: resp scoutfs_server_apply_commit_def)
  have f: "resp = \<lparr>resp_cmd = cmd, resp_id = req_id, resp_error = 0, resp_data = ?s\<rparr>"
    if "commit_ret = 0" using that by (simp add: resp scoutfs_server_apply_commit_def)
  from a b c d e f show ?thesis by blast
qed

theorem advance_seq_effect_witness:
  "server_advance_seq
     \<lparr>next_ino = 1, next_trans_seq = 9, trans_seqs = [(1, 7), (2, 3), (5, 7), (6, 1)], btree_faults = []\<rparr>
     7 6 40 [] 0
   = (\<lparr>next_ino = 1, next_trans_seq = 10, trans_seqs = [(2, 3), (6, 1), (9, 7)], btree_faults = []\<rparr>,
      \<lparr>resp_cmd = 6, resp_id = 40, resp_error = 0, resp_data = 9\<rparr>)"
proof -
  let ?st = "\<lparr>next_ino = 1, next_trans_seq = 9, trans_seqs = [(1, 7), (2, 3), (5, 7), (6, 1 :: u64)],
     btree_faults = []\<rparr>"
  obtain st' resp where run: "server_advance_seq ?st 7 6 40 [] 0 = (st', resp)"
    by (cases "server_advance_seq ?st 7 6 40 [] 0") blast
  have len: "length ([] :: u8 list) = 0" by simp
  have nf: "btree_faults ?st = []" by simp
  from advance_seq_effect [OF len nf run]
  have t: "trans_seqs st' = [(2, 3), (6, 1), (9, 7)]"
    and n: "next_trans_seq st' = 10"
    and r: "resp = \<lparr>resp_cmd = 6, resp_id = 40, resp_error = 0, resp_data = 9\<rparr>"
    by (simp_all add: trans_seq_key_def init_trans_seq_key_def less_eq_prod_def less_prod_def)
  have "next_ino st' = 1 \<and> btree_faults st' = []"
    using run
    by (auto simp: server_advance_seq_def scoutfs_server_hold_commit_def remove_trans_seq_locked_def
        remove_loop_exact Let_def scoutfs_btree_insert_def btree_io_def split: if_splits)
  with t n have "st' = \<lparr>next_ino = 1, next_trans_seq = 10, trans_seqs = [(2, 3), (6, 1), (9, 7)],
      btree_faults = []\<rparr>" by (cases st') simp
  with run r show ?thesis by simp
qed

lemma first_item_min_seq:
  assumes nx: "scoutfs_btree_next trans_seq_key tree faults (init_trans_seq_key 0 0) = (Inr found, fs)"
  shows "fst found = Min (fst ` set tree)"
proof -
  from btree_next_found [OF nx] have mem: "found \<in> set tree"
    and least: "\<And>j. j \<in> set tree \<Longrightarrow> trans_seq_key found \<le> trans_seq_key j"
    by (auto simp: init_trans_seq_key_def zero_key_least)
  have "fst found \<le> fst j" if "j \<in> set tree" for j
    using least [OF that]
    by (auto simp: trans_seq_key_def init_trans_seq_key_def less_eq_prod_def)
  then show ?thesis using mem by (intro Min_eqI [symmetric]) auto
qed

lemma u64_pred_less:
  assumes "(x :: u64) \<noteq> 0" "x \<le> y"
  shows "x - 1 < y"
proof -
  have nz: "unat x \<noteq> 0" using assms(1) by (simp add: unat_eq_zero)
  have "unat (x - 1) = unat x - 1" using assms(1) by (rule unat_minus_one)
  then show ?thesis using assms(2) nz by (simp add: word_less_nat_alt word_le_nat_alt)
qed

text \<open>C8, as amended. GET_LAST_SEQ with an empty payload and no failing btree call
  answers with error 0 and the smallest seq in the tree minus one, or \<open>next_trans_seq\<close>
  minus one when the tree is empty, both in 64-bit wrap-around arithmetic, and changes
  nothing. When no live item has seq 0, the answer is strictly below the seq of every
  live item.\<close>

theorem get_last_seq_value:
  assumes len: "length arg = 0"
    and nofault: "btree_faults st = []"
    and run: "server_get_last_seq st rid cmd req_id arg = (st', resp)"
  shows "resp_cmd resp = cmd \<and> resp_id resp = req_id \<and> resp_error resp = 0
    \<and> resp_data resp = (if trans_seqs st = [] then next_trans_seq st - 1
                        else Min (fst ` set (trans_seqs st)) - 1)
    \<and> ((\<forall>it \<in> set (trans_seqs st). fst it \<noteq> 0) \<longrightarrow>
         (\<forall>it \<in> set (trans_seqs st). resp_data resp < fst it))
    \<and> st' = st"
proof -
  let ?tree = "trans_seqs st"
  obtain found fs where nx: "scoutfs_btree_next trans_seq_key ?tree [] (init_trans_seq_key 0 0)
      = (found, fs)"
    by (cases "scoutfs_btree_next trans_seq_key ?tree [] (init_trans_seq_key 0 0)") blast
  have fs: "fs = []" using nx by (rule btree_next_no_fault)
  have same: "st\<lparr>btree_faults := []\<rparr> = st" using nofault by (cases st) simp
  show ?thesis
  proof (cases found)
    case (Inl err)
    with nx have nx': "scoutfs_btree_next trans_seq_key ?tree [] (init_trans_seq_key 0 0)
      = (Inl err, fs)" by simp
    from btree_next_none [OF nx'] have e: "err = - ENOENT"
      and none: "\<forall>j \<in> set ?tree. \<not> init_trans_seq_key 0 0 \<le> trans_seq_key j" by auto
    have empty: "?tree = []"
    proof (cases ?tree)
      case Nil
      then show ?thesis .
    next
      case (Cons j js)
      then have "j \<in> set ?tree" by simp
      from bspec [OF none this] have False
        by (simp add: init_trans_seq_key_def zero_key_least)
      then show ?thesis ..
    qed
    from run show ?thesis
      using len nofault nx' e empty same fs
      by (auto simp: server_get_last_seq_def Let_def)
  next
    case (Inr item)
    with nx have nx': "scoutfs_btree_next trans_seq_key ?tree [] (init_trans_seq_key 0 0)
      = (Inr item, fs)" by simp
    from btree_next_found [OF nx'] have mem: "item \<in> set ?tree" by simp
    then have nonempty: "?tree \<noteq> []" by auto
    have min: "fst item = Min (fst ` set ?tree)" by (rule first_item_min_seq [OF nx'])
    from run have resp: "resp = \<lparr>resp_cmd = cmd, resp_id = req_id, resp_error = 0,
        resp_data = fst item - 1\<rparr>" and st': "st' = st"
      using len nofault nx' same fs
      by (auto simp: server_get_last_seq_def Let_def skts_trans_seq_def trans_seq_key_def
          init_trans_seq_key_def)
    have below: "resp_data resp < fst it"
      if nz: "\<forall>it \<in> set ?tree. fst it \<noteq> 0" and it: "it \<in> set ?tree" for it
    proof -
      have "fst item \<noteq> 0" using nz mem by blast
      moreover have "fst item \<le> fst it" unfolding min using it by (intro Min_le) auto
      ultimately show ?thesis unfolding resp by (simp add: u64_pred_less)
    qed
    from resp st' nonempty min below show ?thesis by auto
  qed
qed

theorem get_last_seq_value_witness:
  "server_get_last_seq
     \<lparr>next_ino = 1, next_trans_seq = 9, trans_seqs = [(4, 7), (2, 3)], btree_faults = []\<rparr> 7 8 41 []
   = (\<lparr>next_ino = 1, next_trans_seq = 9, trans_seqs = [(4, 7), (2, 3)], btree_faults = []\<rparr>,
      \<lparr>resp_cmd = 8, resp_id = 41, resp_error = 0, resp_data = 1\<rparr>)
   \<and> (1 :: u64) < fst (4 :: u64, 7 :: u64) \<and> (1 :: u64) < fst (2 :: u64, 3 :: u64)"
proof -
  let ?st = "\<lparr>next_ino = 1, next_trans_seq = 9, trans_seqs = [(4, 7), (2, 3 :: u64)],
     btree_faults = []\<rparr>"
  obtain st' resp where run: "server_get_last_seq ?st 7 8 41 [] = (st', resp)"
    by (cases "server_get_last_seq ?st 7 8 41 []") blast
  have len: "length ([] :: u8 list) = 0" by simp
  have nf: "btree_faults ?st = []" by simp
  from get_last_seq_value [OF len nf run]
  have "resp_cmd resp = 8" "resp_id resp = 41" "resp_error resp = 0" "resp_data resp = 1"
    "st' = ?st" by simp_all
  then have "resp = \<lparr>resp_cmd = 8, resp_id = 41, resp_error = 0, resp_data = 1\<rparr>"
    by (cases resp) simp
  with run \<open>st' = ?st\<close> show ?thesis by simp
qed

text \<open>C8 as stated fails for an item with seq 0: the answer wraps to \<open>U64_MAX\<close>, which
  is not below that item's seq.\<close>

theorem get_last_seq_zero_counterexample:
  "resp_data (snd (server_get_last_seq
      \<lparr>next_ino = 1, next_trans_seq = 1, trans_seqs = [(0, 7)], btree_faults = []\<rparr> 7 8 41 []))
     = U64_MAX
   \<and> \<not> resp_data (snd (server_get_last_seq
      \<lparr>next_ino = 1, next_trans_seq = 1, trans_seqs = [(0, 7)], btree_faults = []\<rparr> 7 8 41 []))
     < fst (0 :: u64, 7 :: u64)"
  by (simp add: server_get_last_seq_def scoutfs_btree_next_def btree_io_def trans_seq_key_def
      init_trans_seq_key_def skts_trans_seq_def less_eq_prod_def U64_MAX_def)

subsection \<open>The commit worker\<close>

lemma commit_body_ret: "fst (commit_body steps server) = first_failing_step (commit_step_errors steps)"
  by (simp add: commit_body_def first_failing_step_def commit_step_errors_def EIO_def)

lemma commit_body_waiters: "commit_waiters (snd (commit_body steps server)) = commit_waiters server"
  by (simp add: commit_body_def)

text \<open>C3. One run of the commit worker empties the waiter list and completes every
  waiter it took from it with the same \<open>ret\<close>: the outcome of that commit, which is 0
  when every step succeeded and otherwise the error of the first step that failed. No two
  waiters of the batch see different results.\<close>

theorem commit_waiters_share_result:
  assumes run: "scoutfs_server_commit_func steps server = (ret, server', woken)"
  shows "commit_waiters server' = []
    \<and> length woken = length (commit_waiters server)
    \<and> (\<forall>cw \<in> set woken. cw_ret cw = ret \<and> cw_completed cw)
    \<and> (\<forall>a \<in> set woken. \<forall>b \<in> set woken. cw_ret a = cw_ret b)
    \<and> ret = first_failing_step (commit_step_errors steps)
    \<and> (ret = 0 \<longleftrightarrow> \<not> forcing_unmount steps \<and> fill_list_ret steps = 0
          \<and> empty_list_ret steps = 0 \<and> \<not> prepare_commit_ret steps < 0
          \<and> block_writer_write_ret steps = 0 \<and> write_super_ret steps = 0)"
proof -
  obtain r s where body: "commit_body steps server = (r, s)"
    by (cases "commit_body steps server") blast
  from run body have ret: "ret = r" and srv: "server' = s\<lparr>commit_waiters := []\<rparr>"
    and woken: "woken = map (\<lambda>cw. cw\<lparr>cw_ret := r, cw_completed := True\<rparr>) (commit_waiters s)"
    by (auto simp: scoutfs_server_commit_func_def)
  have ws: "commit_waiters s = commit_waiters server"
    using commit_body_waiters [of steps server] body by simp
  have r: "r = first_failing_step (commit_step_errors steps)"
    using commit_body_ret [of steps server] body by simp
  have zero: "r = 0 \<longleftrightarrow> \<not> forcing_unmount steps \<and> fill_list_ret steps = 0
          \<and> empty_list_ret steps = 0 \<and> \<not> prepare_commit_ret steps < 0
          \<and> block_writer_write_ret steps = 0 \<and> write_super_ret steps = 0"
    using body by (auto simp: commit_body_def EIO_def split: if_splits)
  have each: "\<forall>cw \<in> set woken. cw_ret cw = ret \<and> cw_completed cw"
    by (auto simp: woken ret)
  then have same: "\<forall>a \<in> set woken. \<forall>b \<in> set woken. cw_ret a = cw_ret b" by simp
  have "commit_waiters server' = []" by (simp add: srv)
  moreover have "length woken = length (commit_waiters server)" by (simp add: woken ws)
  ultimately show ?thesis using each same r zero ret by blast
qed

theorem commit_waiters_share_result_witness:
  "scoutfs_server_commit_func
     \<lparr>forcing_unmount = False, fill_list_ret = 0, empty_list_ret = 0, prepare_commit_ret = 0,
      block_writer_write_ret = - 5, write_super_ret = 0\<rparr>
     \<lparr>commit_waiters = [\<lparr>cw_ret = 0, cw_completed = False\<rparr>, \<lparr>cw_ret = 0, cw_completed = False\<rparr>],
      other_ind = 0, roots = (1, 2, 3), super_roots = (4, 5, 6)\<rparr>
   = (- 5,
      \<lparr>commit_waiters = [], other_ind = 0, roots = (1, 2, 3), super_roots = (4, 5, 6)\<rparr>,
      [\<lparr>cw_ret = - 5, cw_completed = True\<rparr>, \<lparr>cw_ret = - 5, cw_completed = True\<rparr>])
   \<and> first_failing_step (commit_step_errors
        \<lparr>forcing_unmount = False, fill_list_ret = 0, empty_list_ret = 0, prepare_commit_ret = 0,
         block_writer_write_ret = - 5, write_super_ret = 0\<rparr>) = - 5"
proof -
  have run: "scoutfs_server_commit_func
     \<lparr>forcing_unmount = False, fill_list_ret = 0, empty_list_ret = 0, prepare_commit_ret = 0,
      block_writer_write_ret = - 5, write_super_ret = 0\<rparr>
     \<lparr>commit_waiters = [\<lparr>cw_ret = 0, cw_completed = False\<rparr>, \<lparr>cw_ret = 0, cw_completed = False\<rparr>],
      other_ind = 0, roots = (1, 2, 3), super_roots = (4, 5, 6)\<rparr>
   = (- 5,
      \<lparr>commit_waiters = [], other_ind = 0, roots = (1, 2, 3), super_roots = (4, 5, 6)\<rparr>,
      [\<lparr>cw_ret = - 5, cw_completed = True\<rparr>, \<lparr>cw_ret = - 5, cw_completed = True\<rparr>])"
    by (simp add: scoutfs_server_commit_func_def commit_body_def)
  from commit_waiters_share_result [OF run] run show ?thesis by simp
qed

subsection \<open>GET_ROOTS\<close>

text \<open>C2. GET_ROOTS with a one-byte payload: the handler notes \<open>-EINVAL\<close> in \<open>ret\<close> and
  zeroes the roots, but the response it sends carries error 0.\<close>

theorem get_roots_bad_length_error_zero:
  "server_get_roots \<lparr>fs_root = 1, logs_root = 2, srch_root = 3\<rparr> 5 9 [0]
     = \<lparr>resp_cmd = 5, resp_id = 9, resp_error = 0,
        resp_data = \<lparr>fs_root = 0, logs_root = 0, srch_root = 0\<rparr>\<rparr>"
  by (simp add: server_get_roots_def)



subsection \<open>Block reads\<close>

text \<open>C5, as amended. A block is read from the device at address \<open>blkno\<close>. The read
  marks the buffer verified only when the header checks hold: the stored CRC equals the CRC
  computed over the block, the stored fsid equals the super block's fsid or the super
  block's fsid is zero, and the stored blkno equals the address it was read from. The
  read succeeds only with the buffer marked verified, and it does succeed, with the buffer
  marked, when the checks hold. If a check fails the read does not mark the buffer, and a
  read that leaves the buffer unmarked answers \<open>-EIO\<close>, as does a failed device read.
  What the read answers for a buffer that an earlier read marked, when the block now on
  the device fails a check, is not part of the statement.\<close>

theorem block_read_verifies:
  assumes unread: "\<not> b_uptodate (bufs sbi blkno)"
    and run: "scoutfs_block_read crcf disk sbi blkno = (res, sbi')"
  shows "(b_verified (bufs sbi' blkno) \<longrightarrow>
           b_verified (bufs sbi blkno)
           \<or> (\<exists>d. disk blkno = Some d
                \<and> hdr_crc (bl_hdr d) = crcf d
                \<and> (hdr_fsid (super_hdr sbi) = 0 \<or> hdr_fsid (bl_hdr d) = hdr_fsid (super_hdr sbi))
                \<and> hdr_blkno (bl_hdr d) = blkno))
    \<and> (res = Inr blkno \<longrightarrow> b_verified (bufs sbi' blkno))
    \<and> ((\<exists>d. disk blkno = Some d
              \<and> hdr_crc (bl_hdr d) = crcf d
              \<and> (hdr_fsid (super_hdr sbi) = 0 \<or> hdr_fsid (bl_hdr d) = hdr_fsid (super_hdr sbi))
              \<and> hdr_blkno (bl_hdr d) = blkno) \<longrightarrow>
           res = Inr blkno \<and> b_verified (bufs sbi' blkno))
    \<and> (\<not> b_verified (bufs sbi' blkno) \<longrightarrow> res = Inl (- EIO))
    \<and> (disk blkno = None \<longrightarrow> res = Inl (- EIO))"
proof (cases "disk blkno")
  case None
  with unread run show ?thesis
    by (auto simp: scoutfs_block_read_def sb_bread_def Let_def)
next
  case (Some d)
  with unread run show ?thesis
    by (auto simp: scoutfs_block_read_def sb_bread_def verify_block_header_def Let_def EIO_def
        split: if_splits)
qed

theorem block_read_verifies_witness:
  "fst (scoutfs_block_read
      (\<lambda>d. ucast (hdr_fsid (bl_hdr d) + hdr_blkno (bl_hdr d) + hdr_seq (bl_hdr d)))
      (\<lambda>b. if b = 100 then Some \<lparr>bl_hdr = \<lparr>hdr_crc = 121, hdr_fsid = 12, hdr_blkno = 100, hdr_seq = 9\<rparr>,
                                  bl_rest = [1, 2, 3]\<rparr> else None)
      \<lparr>super_hdr = \<lparr>hdr_crc = 0, hdr_fsid = 12, hdr_blkno = 0, hdr_seq = 11\<rparr>,
       bufs = (\<lambda>b. \<lparr>b_data = \<lparr>bl_hdr = \<lparr>hdr_crc = 0, hdr_fsid = 0, hdr_blkno = 0, hdr_seq = 0\<rparr>,
                              bl_rest = []\<rparr>,
                    b_uptodate = False, b_verified = False, b_private = False\<rparr>),
       block_dirty_tree = [], block_writes = 0, block_write_err = 0, buddy_freed = []\<rparr>
      100) = Inr 100"
proof -
  let ?crcf = "\<lambda>d. ucast (hdr_fsid (bl_hdr d) + hdr_blkno (bl_hdr d) + hdr_seq (bl_hdr d)) :: u32"
  let ?d = "\<lparr>bl_hdr = \<lparr>hdr_crc = 121, hdr_fsid = 12, hdr_blkno = 100, hdr_seq = 9\<rparr>,
            bl_rest = [1, 2, 3 :: u8]\<rparr>"
  let ?disk = "\<lambda>b :: u64. if b = 100 then Some ?d else None"
  let ?sbi = "\<lparr>super_hdr = \<lparr>hdr_crc = 0, hdr_fsid = 12, hdr_blkno = 0, hdr_seq = 11\<rparr>,
       bufs = (\<lambda>b. \<lparr>b_data = \<lparr>bl_hdr = \<lparr>hdr_crc = 0, hdr_fsid = 0, hdr_blkno = 0, hdr_seq = 0\<rparr>,
                              bl_rest = []\<rparr>,
                    b_uptodate = False, b_verified = False, b_private = False\<rparr>),
       block_dirty_tree = [], block_writes = 0, block_write_err = 0, buddy_freed = []\<rparr>"
  obtain res sbi' where run: "scoutfs_block_read ?crcf ?disk ?sbi 100 = (res, sbi')"
    by (cases "scoutfs_block_read ?crcf ?disk ?sbi 100") blast
  have unread: "\<not> b_uptodate (bufs ?sbi 100)" by simp
  have ok: "\<exists>d. ?disk 100 = Some d \<and> hdr_crc (bl_hdr d) = ?crcf d
      \<and> (hdr_fsid (super_hdr ?sbi) = 0 \<or> hdr_fsid (bl_hdr d) = hdr_fsid (super_hdr ?sbi))
      \<and> hdr_blkno (bl_hdr d) = 100"
    by simp
  from block_read_verifies [OF unread run] ok have "res = Inr 100" by blast
  with run show ?thesis by simp
qed

text \<open>C5 as stated fails while the super block's fsid is zero: a block carrying fsid 5
  is read successfully and marked verified.\<close>

theorem block_read_zero_fsid_counterexample:
  "fst (scoutfs_block_read
      (\<lambda>d. ucast (hdr_fsid (bl_hdr d) + hdr_blkno (bl_hdr d) + hdr_seq (bl_hdr d)))
      (\<lambda>b. if b = 100 then Some \<lparr>bl_hdr = \<lparr>hdr_crc = 114, hdr_fsid = 5, hdr_blkno = 100, hdr_seq = 9\<rparr>,
                                  bl_rest = [1, 2, 3]\<rparr> else None)
      \<lparr>super_hdr = \<lparr>hdr_crc = 0, hdr_fsid = 0, hdr_blkno = 0, hdr_seq = 11\<rparr>,
       bufs = (\<lambda>b. \<lparr>b_data = \<lparr>bl_hdr = \<lparr>hdr_crc = 0, hdr_fsid = 0, hdr_blkno = 0, hdr_seq = 0\<rparr>,
                              bl_rest = []\<rparr>,
                    b_uptodate = False, b_verified = False, b_private = False\<rparr>),
       block_dirty_tree = [], block_writes = 0, block_write_err = 0, buddy_freed = []\<rparr>
      100) = Inr 100
   \<and> b_verified (bufs (snd (scoutfs_block_read
      (\<lambda>d. ucast (hdr_fsid (bl_hdr d) + hdr_blkno (bl_hdr d) + hdr_seq (bl_hdr d)))
      (\<lambda>b. if b = 100 then Some \<lparr>bl_hdr = \<lparr>hdr_crc = 114, hdr_fsid = 5, hdr_blkno = 100, hdr_seq = 9\<rparr>,
                                  bl_rest = [1, 2, 3]\<rparr> else None)
      \<lparr>super_hdr = \<lparr>hdr_crc = 0, hdr_fsid = 0, hdr_blkno = 0, hdr_seq = 11\<rparr>,
       bufs = (\<lambda>b. \<lparr>b_data = \<lparr>bl_hdr = \<lparr>hdr_crc = 0, hdr_fsid = 0, hdr_blkno = 0, hdr_seq = 0\<rparr>,
                              bl_rest = []\<rparr>,
                    b_uptodate = False, b_verified = False, b_private = False\<rparr>),
       block_dirty_tree = [], block_writes = 0, block_write_err = 0, buddy_freed = []\<rparr>
      100)) 100)
   \<and> hdr_fsid \<lparr>hdr_crc = 114, hdr_fsid = 5, hdr_blkno = 100, hdr_seq = 9\<rparr>
       \<noteq> hdr_fsid \<lparr>hdr_crc = 0, hdr_fsid = 0, hdr_blkno = 0, hdr_seq = 11\<rparr>"
  by (simp add: scoutfs_block_read_def sb_bread_def verify_block_header_def Let_def)

text \<open>The mark outlives the data it was set for. Block 100 is read and verified with seq
  9; \<open>scoutfs_block_read_ref\<close> with a reference of seq 8 finds it stale, clears the uptodate
  bit and answers \<open>-EAGAIN\<close>, and the verified bit stays set. The retry reads the device
  again, where block 100 now carries a wrong CRC, a foreign fsid and the blkno 55: the
  read skips \<open>verify_block_header\<close> and returns the block. The header comment of
  \<open>block.c\<close> says of the invalidation of stale cached blocks that it ``only has a hint of
  an implementation''; this is a defect of the code, not a rule of the block layer.\<close>

lemma stale_reread_skips_verification:
  "fst (scoutfs_block_read_ref
      (\<lambda>d. ucast (hdr_fsid (bl_hdr d) + hdr_blkno (bl_hdr d) + hdr_seq (bl_hdr d)))
      (\<lambda>b. if b = 100 then Some \<lparr>bl_hdr = \<lparr>hdr_crc = 121, hdr_fsid = 12, hdr_blkno = 100, hdr_seq = 9\<rparr>,
                                  bl_rest = [1, 2, 3]\<rparr> else None)
      \<lparr>super_hdr = \<lparr>hdr_crc = 0, hdr_fsid = 12, hdr_blkno = 0, hdr_seq = 11\<rparr>,
       bufs = (\<lambda>b. \<lparr>b_data = \<lparr>bl_hdr = \<lparr>hdr_crc = 0, hdr_fsid = 0, hdr_blkno = 0, hdr_seq = 0\<rparr>,
                              bl_rest = []\<rparr>,
                    b_uptodate = False, b_verified = False, b_private = False\<rparr>),
       block_dirty_tree = [], block_writes = 0, block_write_err = 0, buddy_freed = []\<rparr>
      \<lparr>ref_blkno = 100, ref_seq = 8\<rparr>) = Inl (- EAGAIN)
   \<and> fst (scoutfs_block_read
      (\<lambda>d. ucast (hdr_fsid (bl_hdr d) + hdr_blkno (bl_hdr d) + hdr_seq (bl_hdr d)))
      (\<lambda>b. if b = 100 then Some \<lparr>bl_hdr = \<lparr>hdr_crc = 0, hdr_fsid = 77, hdr_blkno = 55, hdr_seq = 8\<rparr>,
                                  bl_rest = [4]\<rparr> else None)
      (snd (scoutfs_block_read_ref
        (\<lambda>d. ucast (hdr_fsid (bl_hdr d) + hdr_blkno (bl_hdr d) + hdr_seq (bl_hdr d)))
        (\<lambda>b. if b = 100 then Some \<lparr>bl_hdr = \<lparr>hdr_crc = 121, hdr_fsid = 12, hdr_blkno = 100, hdr_seq = 9\<rparr>,
                                    bl_rest = [1, 2, 3]\<rparr> else None)
        \<lparr>super_hdr = \<lparr>hdr_crc = 0, hdr_fsid = 12, hdr_blkno = 0, hdr_seq = 11\<rparr>,
         bufs = (\<lambda>b. \<lparr>b_data = \<lparr>bl_hdr = \<lparr>hdr_crc = 0, hdr_fsid = 0, hdr_blkno = 0, hdr_seq = 0\<rparr>,
                                bl_rest = []\<rparr>,
                      b_uptodate = False, b_verified = False, b_private = False\<rparr>),
         block_dirty_tree = [], block_writes = 0, block_write_err = 0, buddy_freed = []\<rparr>
        \<lparr>ref_blkno = 100, ref_seq = 8\<rparr>))
      100) = Inr 100"
  by (simp add: scoutfs_block_read_ref_def scoutfs_block_read_def sb_bread_def
      verify_block_header_def Let_def)

subsection \<open>Copy on write\<close>

lemma block_read_Inr:
  assumes "scoutfs_block_read crcf disk sbi blkno = (Inr bl, sbi1)"
  shows "bl = blkno \<and> super_hdr sbi1 = super_hdr sbi \<and> buddy_freed sbi1 = buddy_freed sbi
    \<and> block_dirty_tree sbi1 = block_dirty_tree sbi"
  using assms
  by (auto simp: scoutfs_block_read_def sb_bread_def Let_def split: if_splits option.splits)

lemma block_dirty_ok:
  assumes "getblk_ok env" "kmalloc_ok env"
  shows "\<exists>sbi2. scoutfs_block_dirty env sbi blkno = (Inr blkno, sbi2)
    \<and> (\<forall>k. k \<noteq> blkno \<longrightarrow> bufs sbi2 k = bufs sbi k)
    \<and> super_hdr sbi2 = super_hdr sbi \<and> buddy_freed sbi2 = buddy_freed sbi
    \<and> b_private (bufs sbi2 blkno)
    \<and> (\<not> b_private (bufs sbi blkno) \<longrightarrow> block_dirty_tree sbi2 = insort blkno (block_dirty_tree sbi))"
  using assms
  by (auto simp: scoutfs_block_dirty_def insert_bhp_def Let_def)

lemma dirty_ref_error_keeps_ref:
  assumes "scoutfs_block_dirty_ref crcf disk env sbi ref = (Inl e, sbi', ref')"
  shows "ref' = ref"
  using assms
  by (auto simp: scoutfs_block_dirty_ref_def Let_def split: prod.splits sum.splits if_splits)

text \<open>C4. Let the read of \<open>r.blkno\<close> succeed. If \<open>r.seq\<close> is the dirty seq, that block
  is returned as the read left it and \<open>r\<close> is not modified. Otherwise, when the allocator
  hands out a block \<open>blkno'\<close> other than \<open>r.blkno\<close> and neither the allocations nor the
  free fail, the buffer of \<open>blkno'\<close> is tracked dirty and holds the old block's contents
  with the header's \<open>blkno\<close> and \<open>seq\<close> set to \<open>blkno'\<close> and the dirty seq, the old block
  is untouched and is pushed onto the freed pool with the seq and blkno of its own
  header, and \<open>r\<close> becomes \<open>{blkno', dirty seq}\<close>. On every error \<open>r\<close> is unchanged.\<close>

theorem dirty_ref_cow:
  assumes rd: "scoutfs_block_read crcf disk sbi (ref_blkno ref) = (Inr bl, sbi1)"
    and run: "scoutfs_block_dirty_ref crcf disk env sbi ref = (res, sbi', ref')"
  shows "(ref_seq ref = hdr_seq (super_hdr sbi) \<longrightarrow>
            res = Inr (ref_blkno ref) \<and> ref' = ref \<and> sbi' = sbi1)
    \<and> (ref_seq ref \<noteq> hdr_seq (super_hdr sbi) \<and> \<not> alloc_same_ret env < 0
          \<and> alloc_same_blkno env \<noteq> ref_blkno ref
          \<and> getblk_ok env \<and> kmalloc_ok env \<and> buddy_free_ret env = 0 \<longrightarrow>
            res = Inr (alloc_same_blkno env)
          \<and> ref' = \<lparr>ref_blkno = alloc_same_blkno env, ref_seq = hdr_seq (super_hdr sbi)\<rparr>
          \<and> b_data (bufs sbi' (alloc_same_blkno env))
              = (b_data (bufs sbi1 (ref_blkno ref)))
                  \<lparr>bl_hdr := (bl_hdr (b_data (bufs sbi1 (ref_blkno ref))))
                      \<lparr>hdr_blkno := alloc_same_blkno env, hdr_seq := hdr_seq (super_hdr sbi)\<rparr>\<rparr>
          \<and> b_data (bufs sbi' (ref_blkno ref)) = b_data (bufs sbi1 (ref_blkno ref))
          \<and> buddy_freed sbi'
              = buddy_freed sbi @ [(hdr_seq (bl_hdr (b_data (bufs sbi1 (ref_blkno ref)))),
                                    hdr_blkno (bl_hdr (b_data (bufs sbi1 (ref_blkno ref)))))]
          \<and> b_private (bufs sbi' (alloc_same_blkno env))
          \<and> (\<not> b_private (bufs sbi1 (alloc_same_blkno env)) \<longrightarrow>
                block_dirty_tree sbi' = insort (alloc_same_blkno env) (block_dirty_tree sbi)))
    \<and> (\<forall>e. res = Inl e \<longrightarrow> ref' = ref)"
proof -
  note r = block_read_Inr [OF rd]
  let ?b = "alloc_same_blkno env"
  let ?old = "b_data (bufs sbi1 (ref_blkno ref))"
  have same: "res = Inr (ref_blkno ref) \<and> ref' = ref \<and> sbi' = sbi1"
    if "ref_seq ref = hdr_seq (super_hdr sbi)"
    using that run rd r by (auto simp: scoutfs_block_dirty_ref_def)
  have err: "ref' = ref" if "res = Inl e" for e
    using run that by (auto dest: dirty_ref_error_keeps_ref)
  have cow: "res = Inr ?b
      \<and> ref' = \<lparr>ref_blkno = ?b, ref_seq = hdr_seq (super_hdr sbi)\<rparr>
      \<and> b_data (bufs sbi' ?b)
          = ?old\<lparr>bl_hdr := (bl_hdr ?old)\<lparr>hdr_blkno := ?b, hdr_seq := hdr_seq (super_hdr sbi)\<rparr>\<rparr>
      \<and> b_data (bufs sbi' (ref_blkno ref)) = ?old
      \<and> buddy_freed sbi' = buddy_freed sbi @ [(hdr_seq (bl_hdr ?old), hdr_blkno (bl_hdr ?old))]
      \<and> b_private (bufs sbi' ?b)
      \<and> (\<not> b_private (bufs sbi1 ?b) \<longrightarrow> block_dirty_tree sbi' = insort ?b (block_dirty_tree sbi))"
    if h: "ref_seq ref \<noteq> hdr_seq (super_hdr sbi)" "\<not> alloc_same_ret env < 0"
      "?b \<noteq> ref_blkno ref" "getblk_ok env" "kmalloc_ok env" "buddy_free_ret env = 0"
  proof -
    from block_dirty_ok [OF h(4) h(5), of sbi1 ?b] obtain sbi2 where
      d: "scoutfs_block_dirty env sbi1 ?b = (Inr ?b, sbi2)"
      and keep: "\<And>k. k \<noteq> ?b \<Longrightarrow> bufs sbi2 k = bufs sbi1 k"
      and sup: "super_hdr sbi2 = super_hdr sbi1" and fr: "buddy_freed sbi2 = buddy_freed sbi1"
      and priv: "b_private (bufs sbi2 ?b)"
      and tree: "\<not> b_private (bufs sbi1 ?b) \<Longrightarrow>
        block_dirty_tree sbi2 = insort ?b (block_dirty_tree sbi1)"
      by blast
    have old2: "bufs sbi2 (ref_blkno ref) = bufs sbi1 (ref_blkno ref)"
      using keep [of "ref_blkno ref"] h(3) by simp
    from run show ?thesis
      using rd r h d sup fr priv tree old2
      by (auto simp: scoutfs_block_dirty_ref_def scoutfs_buddy_free_def Let_def)
  qed
  from same cow err show ?thesis by blast
qed

theorem dirty_ref_cow_witness:
  "fst (scoutfs_block_dirty_ref
      (\<lambda>d. ucast (hdr_fsid (bl_hdr d) + hdr_blkno (bl_hdr d) + hdr_seq (bl_hdr d)))
      (\<lambda>b. if b = 100 then Some \<lparr>bl_hdr = \<lparr>hdr_crc = 121, hdr_fsid = 12, hdr_blkno = 100, hdr_seq = 9\<rparr>,
                                  bl_rest = [1, 2, 3]\<rparr> else None)
      \<lparr>alloc_same_ret = 0, alloc_same_blkno = 200, getblk_ok = True, kmalloc_ok = True,
       buddy_free_ret = 0, buddy_free_copy_ret = 0\<rparr>
      \<lparr>super_hdr = \<lparr>hdr_crc = 0, hdr_fsid = 12, hdr_blkno = 0, hdr_seq = 11\<rparr>,
       bufs = (\<lambda>b. \<lparr>b_data = \<lparr>bl_hdr = \<lparr>hdr_crc = 0, hdr_fsid = 0, hdr_blkno = 0, hdr_seq = 0\<rparr>,
                              bl_rest = []\<rparr>,
                    b_uptodate = False, b_verified = False, b_private = False\<rparr>),
       block_dirty_tree = [], block_writes = 0, block_write_err = 0, buddy_freed = []\<rparr>
      \<lparr>ref_blkno = 100, ref_seq = 9\<rparr>) = Inr 200
   \<and> snd (snd (scoutfs_block_dirty_ref
      (\<lambda>d. ucast (hdr_fsid (bl_hdr d) + hdr_blkno (bl_hdr d) + hdr_seq (bl_hdr d)))
      (\<lambda>b. if b = 100 then Some \<lparr>bl_hdr = \<lparr>hdr_crc = 121, hdr_fsid = 12, hdr_blkno = 100, hdr_seq = 9\<rparr>,
                                  bl_rest = [1, 2, 3]\<rparr> else None)
      \<lparr>alloc_same_ret = 0, alloc_same_blkno = 200, getblk_ok = True, kmalloc_ok = True,
       buddy_free_ret = 0, buddy_free_copy_ret = 0\<rparr>
      \<lparr>super_hdr = \<lparr>hdr_crc = 0, hdr_fsid = 12, hdr_blkno = 0, hdr_seq = 11\<rparr>,
       bufs = (\<lambda>b. \<lparr>b_data = \<lparr>bl_hdr = \<lparr>hdr_crc = 0, hdr_fsid = 0, hdr_blkno = 0, hdr_seq = 0\<rparr>,
                              bl_rest = []\<rparr>,
                    b_uptodate = False, b_verified = False, b_private = False\<rparr>),
       block_dirty_tree = [], block_writes = 0, block_write_err = 0, buddy_freed = []\<rparr>
      \<lparr>ref_blkno = 100, ref_seq = 9\<rparr>)) = \<lparr>ref_blkno = 200, ref_seq = 11\<rparr>"
proof -
  let ?crcf = "\<lambda>d. ucast (hdr_fsid (bl_hdr d) + hdr_blkno (bl_hdr d) + hdr_seq (bl_hdr d)) :: u32"
  let ?disk = "\<lambda>b :: u64. if b = 100
      then Some \<lparr>bl_hdr = \<lparr>hdr_crc = 121, hdr_fsid = 12, hdr_blkno = 100, hdr_seq = 9\<rparr>,
                 bl_rest = [1, 2, 3 :: u8]\<rparr> else None"
  let ?env = "\<lparr>alloc_same_ret = 0, alloc_same_blkno = 200, getblk_ok = True, kmalloc_ok = True,
       buddy_free_ret = 0, buddy_free_copy_ret = 0\<rparr>"
  let ?sbi = "\<lparr>super_hdr = \<lparr>hdr_crc = 0, hdr_fsid = 12, hdr_blkno = 0, hdr_seq = 11\<rparr>,
       bufs = (\<lambda>b. \<lparr>b_data = \<lparr>bl_hdr = \<lparr>hdr_crc = 0, hdr_fsid = 0, hdr_blkno = 0, hdr_seq = 0\<rparr>,
                              bl_rest = []\<rparr>,
                    b_uptodate = False, b_verified = False, b_private = False\<rparr>),
       block_dirty_tree = [], block_writes = 0, block_write_err = 0, buddy_freed = []\<rparr>"
  let ?ref = "\<lparr>ref_blkno = 100, ref_seq = 9\<rparr>"
  obtain res sbi' ref' where run: "scoutfs_block_dirty_ref ?crcf ?disk ?env ?sbi ?ref = (res, sbi', ref')"
    by (cases "scoutfs_block_dirty_ref ?crcf ?disk ?env ?sbi ?ref") auto
  obtain r1 sbi1 where rd0: "scoutfs_block_read ?crcf ?disk ?sbi (ref_blkno ?ref) = (r1, sbi1)"
    by (cases "scoutfs_block_read ?crcf ?disk ?sbi (ref_blkno ?ref)") auto
  have "fst (scoutfs_block_read ?crcf ?disk ?sbi (ref_blkno ?ref)) = Inr 100"
    by (simp add: scoutfs_block_read_def sb_bread_def verify_block_header_def Let_def)
  with rd0 have rd: "scoutfs_block_read ?crcf ?disk ?sbi (ref_blkno ?ref) = (Inr 100, sbi1)"
    by simp
  from dirty_ref_cow [OF rd run]
  have "res = Inr 200 \<and> ref' = \<lparr>ref_blkno = 200, ref_seq = 11\<rparr>" by simp
  with run show ?thesis by simp
qed

subsection \<open>Writing the dirty blocks\<close>

lemma write_dirty_loop_keeps_failed:
  "write_dirty_loop crcf env nodes ret sbi = (r, sbi') \<Longrightarrow>
   b \<in> set (block_dirty_tree sbi) \<Longrightarrow> \<not> io_uptodate env b \<Longrightarrow>
   b \<in> set (block_dirty_tree sbi')"
proof (induction nodes arbitrary: ret sbi)
  case Nil
  then show ?case by simp
next
  case (Cons blkno nodes)
  let ?sbi2 = "scoutfs_block_set_crc crcf (sbi\<lparr>block_writes := block_writes sbi + 1\<rparr>) blkno"
  show ?case
  proof (cases "submit_ret env blkno = 0")
    case True
    let ?sbi3 = "block_write_end_io ?sbi2 blkno (io_uptodate env blkno)"
    have ne: "b \<noteq> blkno" if "io_uptodate env blkno"
      using that Cons.prems(3) by auto
    have "b \<in> set (block_dirty_tree ?sbi3)"
      using Cons.prems(2) ne
      by (auto simp: block_write_end_io_def erase_bhp_def scoutfs_block_set_crc_def Let_def
          in_set_remove1)
    moreover have "write_dirty_loop crcf env nodes 0 ?sbi3 = (r, sbi')"
      using Cons.prems(1) True by (simp add: Let_def)
    ultimately show ?thesis using Cons.IH Cons.prems(3) by blast
  next
    case False
    then have "sbi' = ?sbi2" using Cons.prems(1) by (simp add: Let_def)
    then show ?thesis using Cons.prems(2) by (simp add: scoutfs_block_set_crc_def Let_def)
  qed
qed

lemma write_dirty_keeps_failed:
  assumes "scoutfs_block_write_dirty crcf env sbi = (r, sbi')"
    and "b \<in> set (block_dirty_tree sbi)" and "\<not> io_uptodate env b"
  shows "b \<in> set (block_dirty_tree sbi')"
proof -
  let ?sbi1 = "sbi\<lparr>block_writes := 1, block_write_err := 0\<rparr>"
  obtain ret sbi2 where loop: "write_dirty_loop crcf env (block_dirty_tree ?sbi1) 0 ?sbi1 = (ret, sbi2)"
    by (cases "write_dirty_loop crcf env (block_dirty_tree ?sbi1) 0 ?sbi1") blast
  have "b \<in> set (block_dirty_tree sbi2)"
    using write_dirty_loop_keeps_failed [OF loop _ assms(3)] assms(2) by simp
  moreover have "block_dirty_tree sbi' = block_dirty_tree sbi2"
    using assms(1) loop by (auto simp: scoutfs_block_write_dirty_def Let_def)
  ultimately show ?thesis by simp
qed

lemma write_dirty_loop_submitted:
  "\<forall>b. submit_ret env b = 0 \<Longrightarrow>
   write_dirty_loop crcf env nodes 0 sbi = (r, sbi') \<Longrightarrow>
   r = 0 \<and> block_writes sbi' = block_writes sbi"
proof (induction nodes arbitrary: sbi)
  case Nil
  then show ?case by simp
next
  case (Cons blkno nodes)
  let ?sbi3 = "block_write_end_io
      (scoutfs_block_set_crc crcf (sbi\<lparr>block_writes := block_writes sbi + 1\<rparr>) blkno)
      blkno (io_uptodate env blkno)"
  have "write_dirty_loop crcf env nodes 0 ?sbi3 = (r, sbi')"
    using Cons.prems by (simp add: Let_def)
  from Cons.IH [OF Cons.prems(1) this]
  show ?case
    by (simp add: block_write_end_io_def erase_bhp_def scoutfs_block_set_crc_def Let_def)
qed

lemma write_dirty_ignores_io_error:
  assumes "\<forall>b. submit_ret env b = 0"
  shows "fst (scoutfs_block_write_dirty crcf env sbi) = Some 0"
proof -
  let ?sbi1 = "sbi\<lparr>block_writes := 1, block_write_err := 0\<rparr>"
  obtain ret sbi2 where loop: "write_dirty_loop crcf env (block_dirty_tree ?sbi1) 0 ?sbi1 = (ret, sbi2)"
    by (cases "write_dirty_loop crcf env (block_dirty_tree ?sbi1) 0 ?sbi1") blast
  from write_dirty_loop_submitted [OF assms loop] have "ret = 0" "block_writes sbi2 = 1" by simp_all
  then show ?thesis using loop by (simp add: scoutfs_block_write_dirty_def Let_def)
qed

text \<open>C1. Two dirty blocks, 3 and 5; both writes are submitted, the I/O of block 5
  fails. Block 5 stays in the dirty tree and \<open>block_write_err\<close> records \<open>-EIO\<close>, but
  \<open>scoutfs_block_write_dirty\<close> returns 0.\<close>

theorem write_dirty_drops_io_error:
  "fst (scoutfs_block_write_dirty (\<lambda>d. 0)
      \<lparr>submit_ret = (\<lambda>b. 0), io_uptodate = (\<lambda>b. b \<noteq> 5)\<rparr>
      \<lparr>super_hdr = \<lparr>hdr_crc = 0, hdr_fsid = 12, hdr_blkno = 0, hdr_seq = 11\<rparr>,
       bufs = (\<lambda>b. \<lparr>b_data = \<lparr>bl_hdr = \<lparr>hdr_crc = 0, hdr_fsid = 12, hdr_blkno = b, hdr_seq = 11\<rparr>,
                              bl_rest = []\<rparr>,
                    b_uptodate = True, b_verified = True, b_private = (b = 3 \<or> b = 5)\<rparr>),
       block_dirty_tree = [3, 5], block_writes = 0, block_write_err = 0, buddy_freed = []\<rparr>)
     = Some 0
   \<and> block_dirty_tree (snd (scoutfs_block_write_dirty (\<lambda>d. 0)
      \<lparr>submit_ret = (\<lambda>b. 0), io_uptodate = (\<lambda>b. b \<noteq> 5)\<rparr>
      \<lparr>super_hdr = \<lparr>hdr_crc = 0, hdr_fsid = 12, hdr_blkno = 0, hdr_seq = 11\<rparr>,
       bufs = (\<lambda>b. \<lparr>b_data = \<lparr>bl_hdr = \<lparr>hdr_crc = 0, hdr_fsid = 12, hdr_blkno = b, hdr_seq = 11\<rparr>,
                              bl_rest = []\<rparr>,
                    b_uptodate = True, b_verified = True, b_private = (b = 3 \<or> b = 5)\<rparr>),
       block_dirty_tree = [3, 5], block_writes = 0, block_write_err = 0, buddy_freed = []\<rparr>))
     = [5]
   \<and> block_write_err (snd (scoutfs_block_write_dirty (\<lambda>d. 0)
      \<lparr>submit_ret = (\<lambda>b. 0), io_uptodate = (\<lambda>b. b \<noteq> 5)\<rparr>
      \<lparr>super_hdr = \<lparr>hdr_crc = 0, hdr_fsid = 12, hdr_blkno = 0, hdr_seq = 11\<rparr>,
       bufs = (\<lambda>b. \<lparr>b_data = \<lparr>bl_hdr = \<lparr>hdr_crc = 0, hdr_fsid = 12, hdr_blkno = b, hdr_seq = 11\<rparr>,
                              bl_rest = []\<rparr>,
                    b_uptodate = True, b_verified = True, b_private = (b = 3 \<or> b = 5)\<rparr>),
       block_dirty_tree = [3, 5], block_writes = 0, block_write_err = 0, buddy_freed = []\<rparr>))
     = - EIO"
  by (simp add: scoutfs_block_write_dirty_def scoutfs_block_set_crc_def block_write_end_io_def
      erase_bhp_def Let_def)


subsection \<open>The farewell worker\<close>

























end
